theory Spec2Isabelle
  imports Complex_Main
begin

section \<open>Negative sampling for knowledge-graph embeddings (kge/util/sampler.py)\<close>

text \<open>
  The embedding follows \<^verbatim>\<open>src/kge/util/sampler.py\<close>: the class \<^verbatim>\<open>KgeSampler\<close> with its
  two subclasses \<^verbatim>\<open>KgeUniformSampler\<close> and \<^verbatim>\<open>KgeFrequencySampler\<close>.
  Tensors are lists (a matrix is the list of its rows), the three per-slot tensors of the
  sampler are functions on slots, raised exceptions are values \<open>Inl e\<close> of a sum type, and
  the unbounded resample loops are partial functions into \<open>option\<close>, where \<open>None\<close> is a
  run that never returns.
\<close>

subsection \<open>Slots, triples, errors\<close>

text \<open>\<^verbatim>\<open>SLOTS = [0, 1, 2]\<close>, \<^verbatim>\<open>SLOT_STR = ["s", "p", "o"]\<close>, \<^verbatim>\<open>S, P, O = SLOTS\<close>.\<close>

datatype slot = S_slot | P_slot | O_slot

definition SLOTS :: "slot list" where
  "SLOTS = [S_slot, P_slot, O_slot]"

fun SLOT_STR :: "slot \<Rightarrow> string" where
  "SLOT_STR S_slot = ''s''"
| "SLOT_STR P_slot = ''p''"
| "SLOT_STR O_slot = ''o''"

text \<open>\<^verbatim>\<open>["po", "so", "sp"][slot]\<close>\<close>

fun pair_str :: "slot \<Rightarrow> string" where
  "pair_str S_slot = ''po''"
| "pair_str P_slot = ''so''"
| "pair_str O_slot = ''sp''"

text \<open>\<^verbatim>\<open>[[P, O], [S, O], [S, P]][slot]\<close>\<close>

fun cols :: "slot \<Rightarrow> slot \<times> slot" where
  "cols S_slot = (P_slot, O_slot)"
| "cols P_slot = (S_slot, O_slot)"
| "cols O_slot = (S_slot, P_slot)"

type_synonym triple = "int \<times> int \<times> int"

fun triple_at :: "triple \<Rightarrow> slot \<Rightarrow> int" where
  "triple_at (s, p, o') S_slot = s"
| "triple_at (s, p, o') P_slot = p"
| "triple_at (s, p, o') O_slot = o'"

text \<open>\<^verbatim>\<open>pairs = positive_triples[:, cols]\<close>, read at one row.\<close>

definition pair_of :: "slot \<Rightarrow> triple \<Rightarrow> int \<times> int" where
  "pair_of slot t = (triple_at t (fst (cols slot)), triple_at t (snd (cols slot)))"

datatype error =
    ValueError string
  | NotImplementedError string
  | RuntimeError string
  | IndexError
  | KeyError
  | AttributeError
  | TypeError

subsection \<open>Configuration and dataset\<close>

text \<open>
  The options the sampler reads. \<open>cfg_shared\<close>, \<open>cfg_num_samples\<close>, \<open>cfg_filtering\<close>,
  \<open>cfg_filtering_implementation\<close>, \<open>cfg_sampling_type\<close> and \<open>cfg_frequency_smoothing\<close>
  are the options under the sampler's configuration key; \<open>cfg_filtering_split\<close> is
  \<^verbatim>\<open>negative_sampling.filtering.split\<close> and \<open>cfg_train_split\<close> is \<^verbatim>\<open>train.split\<close>.
\<close>

record config =
  cfg_shared :: bool
  cfg_filtering_split :: string
  cfg_train_split :: string
  cfg_num_samples :: "slot \<Rightarrow> int"
  cfg_filtering :: "slot \<Rightarrow> bool"
  cfg_filtering_implementation :: string
  cfg_sampling_type :: string
  cfg_frequency_smoothing :: rat

text \<open>
  The dataset is a collaborator of the sampler and not part of the source file; the
  sampler uses four of its operations, which the model takes as the fields of a record:
  the two vocabulary sizes, \<^verbatim>\<open>dataset.index(name)\<close>, whose result answers
  \<^verbatim>\<open>index.get((a, b))\<close> with the array of known positives, and \<^verbatim>\<open>dataset.split(name)\<close>.
\<close>

record dataset =
  num_entities :: int
  num_relations :: int
  index :: "string \<Rightarrow> (int \<times> int) \<Rightarrow> int list"
  split :: "string \<Rightarrow> triple list"

text \<open>The name \<^verbatim>\<open>f"{self.filtering_split}_{pair}_to_{slot_str}"\<close>.\<close>

definition index_name :: "string \<Rightarrow> slot \<Rightarrow> string" where
  "index_name filtering_split slot =
     filtering_split @ ''_'' @ pair_str slot @ ''_to_'' @ SLOT_STR slot"

subsection \<open>The sampler object\<close>

datatype strategy = Uniform | Frequency

text \<open>
  The fields of a \<^verbatim>\<open>KgeSampler\<close>. \<open>strategy\<close> is the class of the object.
  \<open>filter_implementation\<close> is \<open>None\<close> while the attribute does not exist (the
  constructor sets it only when some slot is filtered). \<open>multinomials\<close> stands for
  \<^verbatim>\<open>self._multinomials\<close> of the frequency sampler: per slot, the probability vector
  from which the alias tables are built (the tables have its length).
  \<open>num_samples\<close> and \<open>vocabulary_size\<close> are tensors of 32-bit integers; their cells
  are integers here, which the constructor stores only after the range check of the
  tensor assignment, and which are copied but never computed on afterwards.
\<close>

record sampler =
  strategy :: strategy
  num_samples :: "slot \<Rightarrow> int"
  filter_positives :: "slot \<Rightarrow> bool"
  vocabulary_size :: "slot \<Rightarrow> int"
  shared :: bool
  filtering_split :: string
  filter_implementation :: "string option"
  sampler_dataset :: dataset
  multinomials :: "slot \<Rightarrow> rat list"

subsection \<open>Construction: \<^verbatim>\<open>KgeSampler.__init__\<close>\<close>

text \<open>
  The auto configuration loop
  \<^verbatim>\<open>for slot, copy_from in [(S, O), (P, None), (O, S)]\<close>: one step, then the loop.
\<close>

definition auto_config_step :: "slot \<times> slot option \<Rightarrow> (slot \<Rightarrow> int) \<Rightarrow> (slot \<Rightarrow> int)" where
  "auto_config_step sc ns =
     (case sc of (slot, copy_from) \<Rightarrow>
        if ns slot < 0 then
          (case copy_from of
             Some c \<Rightarrow> if 0 < ns c then ns(slot := ns c) else ns(slot := 0)
           | None \<Rightarrow> ns(slot := 0))
        else ns)"

definition auto_config :: "(slot \<Rightarrow> int) \<Rightarrow> (slot \<Rightarrow> int)" where
  "auto_config ns =
     fold auto_config_step
       [(S_slot, Some O_slot), (P_slot, None), (O_slot, Some S_slot)] ns"

definition filtering_shared_error :: error where
  "filtering_shared_error =
     ValueError ''Filtering is not supported when shared negative sampling is enabled.''"

text \<open>
  \<^verbatim>\<open>self.check_option("filtering.implementation", [...])\<close> belongs to \<^verbatim>\<open>Configurable\<close>,
  outside the source file; it rejects a value that is not in the list.
\<close>

definition check_option_error :: error where
  "check_option_error = ValueError ''filtering.implementation''"

text \<open>
  \<^verbatim>\<open>self.num_samples\<close> and \<open>self.vocabulary_size\<close> are made by
  \<^verbatim>\<open>torch.zeros(3, dtype=torch.int)\<close>. Assigning to a cell a number outside the range of
  32-bit integers raises \<^verbatim>\<open>RuntimeError\<close>; the assignments are in the first loop of the
  constructor, before the check of filtering against shared sampling.
\<close>

definition int32_range :: "int \<Rightarrow> bool" where
  "int32_range v \<longleftrightarrow> - (2 ^ 31) \<le> v \<and> v < 2 ^ 31"

definition tensors_fit :: "config \<Rightarrow> dataset \<Rightarrow> bool" where
  "tensors_fit config ds \<longleftrightarrow>
     list_all (\<lambda>slot. int32_range (cfg_num_samples config slot)
                     \<and> int32_range (if slot = P_slot then num_relations ds
                                     else num_entities ds)) SLOTS"

definition tensor_overflow_error :: error where
  "tensor_overflow_error =
     RuntimeError ''value cannot be converted to type int without overflow''"

text \<open>
  The constructor. \<open>cls\<close> is the class being instantiated. Besides the object it
  returns the names passed to \<^verbatim>\<open>dataset.index\<close> in the first loop, in order (the
  indexes it asks the dataset to create).
\<close>

definition KgeSampler_init ::
  "strategy \<Rightarrow> config \<Rightarrow> dataset \<Rightarrow> error + sampler \<times> string list" where
  "KgeSampler_init cls config ds =
     (let filtering_split' =
            (if cfg_filtering_split config = '''' then cfg_train_split config
             else cfg_filtering_split config);
          filter_positives' = cfg_filtering config;
          requested =
            map (index_name filtering_split') (filter filter_positives' SLOTS)
      in
        if \<not> tensors_fit config ds then
          Inl tensor_overflow_error
        else if list_ex filter_positives' SLOTS \<and> cfg_shared config then
          Inl filtering_shared_error
        else if list_ex filter_positives' SLOTS \<and>
                cfg_filtering_implementation config
                  \<notin> set [''standard'', ''fast'', ''fast_if_available''] then
          Inl check_option_error
        else
          Inr (\<lparr> strategy = cls,
                 num_samples = auto_config (cfg_num_samples config),
                 filter_positives = filter_positives',
                 vocabulary_size =
                   (\<lambda>slot. if slot = P_slot then num_relations ds else num_entities ds),
                 shared = cfg_shared config,
                 filtering_split = filtering_split',
                 filter_implementation =
                   (if list_ex filter_positives' SLOTS
                    then Some (cfg_filtering_implementation config) else None),
                 sampler_dataset = ds,
                 multinomials = (\<lambda>slot. []) \<rparr>,
               requested))"

subsection \<open>The subclasses and the factory\<close>

definition KgeUniformSampler_init ::
  "config \<Rightarrow> dataset \<Rightarrow> error + sampler \<times> string list" where
  "KgeUniformSampler_init config ds = KgeSampler_init Uniform config ds"

text \<open>
  \<^verbatim>\<open>np.bincount(x, minlength=m)\<close>: the number of occurrences of each value, in an array
  of length \<open>max m (max x + 1)\<close>; numpy raises \<^verbatim>\<open>ValueError\<close> on a negative element
  and on a negative \<open>minlength\<close>.
\<close>

definition bincount :: "int list \<Rightarrow> int \<Rightarrow> error + nat list" where
  "bincount x minlength =
     (if list_ex (\<lambda>v. v < 0) x then
        Inl (ValueError ''bincount: negative element'')
      else if minlength < 0 then
        Inl (ValueError ''bincount: negative minlength'')
      else
        Inr (map (\<lambda>v. count_list x (int v))
               [0 ..< max (nat minlength) (nat (fold max x (- 1) + 1))]))"

text \<open>
  One round of the loop of \<^verbatim>\<open>KgeFrequencySampler.__init__\<close>: the smoothed counts of a
  slot of the training split, normalised. The arithmetic is exact here (floating point
  in the source); the claims below depend on the length of the vector and on which of
  its entries are positive, not on the numbers.
\<close>

definition frequency_table :: "config \<Rightarrow> dataset \<Rightarrow> sampler \<Rightarrow> slot \<Rightarrow> error + rat list" where
  "frequency_table config ds self slot =
     (case bincount (map (\<lambda>t. triple_at t slot) (split ds (cfg_train_split config)))
             (vocabulary_size self slot) of
        Inl e \<Rightarrow> Inl e
      | Inr counts \<Rightarrow>
          (let smoothed_counts =
                 map (\<lambda>c. of_nat c + cfg_frequency_smoothing config) counts
           in Inr (map (\<lambda>c. c / sum_list smoothed_counts) smoothed_counts)))"

definition KgeFrequencySampler_init ::
  "config \<Rightarrow> dataset \<Rightarrow> error + sampler \<times> string list" where
  "KgeFrequencySampler_init config ds =
     (case KgeSampler_init Frequency config ds of
        Inl e \<Rightarrow> Inl e
      | Inr (self, requested) \<Rightarrow>
          (case frequency_table config ds self S_slot of
             Inl e \<Rightarrow> Inl e
           | Inr ms \<Rightarrow>
               (case frequency_table config ds self P_slot of
                  Inl e \<Rightarrow> Inl e
                | Inr mp \<Rightarrow>
                    (case frequency_table config ds self O_slot of
                       Inl e \<Rightarrow> Inl e
                     | Inr mo \<Rightarrow>
                         Inr (self \<lparr> multinomials :=
                                      (\<lambda>slot. case slot of
                                          S_slot \<Rightarrow> ms | P_slot \<Rightarrow> mp | O_slot \<Rightarrow> mo) \<rparr>,
                              requested)))))"

text \<open>\<^verbatim>\<open>KgeSampler.create\<close>\<close>

definition create ::
  "config \<Rightarrow> string \<Rightarrow> dataset \<Rightarrow> error + sampler \<times> string list" where
  "create config configuration_key ds =
     (if cfg_sampling_type config = ''uniform'' then
        KgeUniformSampler_init config ds
      else if cfg_sampling_type config = ''frequency'' then
        KgeFrequencySampler_init config ds
      else Inl (ValueError (configuration_key @ ''.sampling_type'')))"

subsection \<open>Random draws\<close>

text \<open>
  The random number generators of torch and numpy are outside the program. The model
  takes the sequence of raw values a generator would deliver as an oracle \<open>g\<close>, the
  \<open>k\<close>-th value being \<open>g k\<close>; a draw from \<open>[0, high)\<close> is the next raw value modulo
  \<open>high\<close>, so that every outcome in the range arises from some oracle, and the
  generator left behind is the oracle shifted by the number of values consumed.
  Which distribution the values follow is not modelled.
\<close>

type_synonym rng = "nat \<Rightarrow> nat"

definition draw_vector :: "nat \<Rightarrow> nat \<Rightarrow> rng \<Rightarrow> int list \<times> rng" where
  "draw_vector high n g =
     (map (\<lambda>j. int (g j mod high)) [0..<n], \<lambda>k. g (k + n))"

definition draw_matrix :: "nat \<Rightarrow> nat \<Rightarrow> nat \<Rightarrow> rng \<Rightarrow> int list list \<times> rng" where
  "draw_matrix high rows columns g =
     (map (\<lambda>i. map (\<lambda>j. int (g (i * columns + j) mod high)) [0..<columns]) [0..<rows],
      \<lambda>k. g (k + rows * columns))"

text \<open>
  \<^verbatim>\<open>torch.randint(high, (rows, columns))\<close>: torch refuses a negative dimension, and an
  empty range \<open>high \<le> 0\<close>.
\<close>

definition torch_randint :: "int \<Rightarrow> nat \<Rightarrow> int \<Rightarrow> rng \<Rightarrow> error + int list list \<times> rng" where
  "torch_randint high rows columns g =
     (if columns < 0 then Inl (RuntimeError ''negative dimension'')
      else if high \<le> 0 then Inl (RuntimeError ''random_ expects from < to'')
      else Inr (draw_matrix (nat high) rows (nat columns) g))"

text \<open>\<^verbatim>\<open>np.random.randint(0, voc_size, n)\<close>: numpy refuses \<open>voc_size \<le> 0\<close>.\<close>

definition np_random_randint :: "int \<Rightarrow> nat \<Rightarrow> rng \<Rightarrow> error + int list \<times> rng" where
  "np_random_randint voc_size n g =
     (if voc_size \<le> 0 then Inl (ValueError ''low >= high'')
      else Inr (draw_vector (nat voc_size) n g))"

subsection \<open>The sampling strategies\<close>

text \<open>
  \<^verbatim>\<open>_sample(positive_triples, slot, num_samples)\<close> reads of its first argument only
  \<^verbatim>\<open>positive_triples.size(0)\<close>, which is the argument \<open>rows\<close> here.
\<close>

definition KgeUniformSampler_sample ::
  "sampler \<Rightarrow> nat \<Rightarrow> slot \<Rightarrow> int \<Rightarrow> rng \<Rightarrow> error + int list list \<times> rng" where
  "KgeUniformSampler_sample self rows slot n g =
     torch_randint (vocabulary_size self slot) rows n g"

text \<open>
  \<^verbatim>\<open>torch._multinomial_alias_draw\<close> draws indexes into the probability vector from which
  the alias tables were built, each with its probability: an index of probability zero
  is never drawn. The indexes of positive probability are \<open>alias_support\<close>; a draw is the
  one that the next raw value of the generator selects among them, so that every
  index of positive probability arises from some raw value and no other index does.
\<close>

definition alias_support :: "rat list \<Rightarrow> nat list" where
  "alias_support probs = filter (\<lambda>i. 0 < probs ! i) [0..<length probs]"

definition alias_draw :: "rat list \<Rightarrow> nat \<Rightarrow> nat" where
  "alias_draw probs r = alias_support probs ! (r mod length (alias_support probs))"

text \<open>
  \<^verbatim>\<open>KgeFrequencySampler._sample\<close>. The alias draw cannot deliver a negative number of
  values, nor any value when no index has positive probability.
\<close>

definition KgeFrequencySampler_sample ::
  "sampler \<Rightarrow> nat \<Rightarrow> slot \<Rightarrow> int \<Rightarrow> rng \<Rightarrow> error + int list list \<times> rng" where
  "KgeFrequencySampler_sample self rows slot n g =
     (if n = 0 then Inr (replicate rows [], g)
      else if n < 0 then Inl (RuntimeError ''negative dimension'')
      else if alias_support (multinomials self slot) = [] then
        Inl (RuntimeError ''no index of positive probability'')
      else
        Inr (map (\<lambda>i. map (\<lambda>j. int (alias_draw (multinomials self slot) (g (i * nat n + j))))
                         [0..<nat n]) [0..<rows],
             \<lambda>k. g (k + rows * nat n)))"

text \<open>\<^verbatim>\<open>self._sample(...)\<close>, dispatched on the class of the object.\<close>

definition sampler_sample ::
  "sampler \<Rightarrow> nat \<Rightarrow> slot \<Rightarrow> int \<Rightarrow> rng \<Rightarrow> error + int list list \<times> rng" where
  "sampler_sample self rows slot n g =
     (case strategy self of
        Uniform \<Rightarrow> KgeUniformSampler_sample self rows slot n g
      | Frequency \<Rightarrow> KgeFrequencySampler_sample self rows slot n g)"

text \<open>
  \<^verbatim>\<open>_sample_shared\<close>, the same in both subclasses:
  \<^verbatim>\<open>self._sample(torch.empty(1), slot, num_samples).view(-1)\<close>.
\<close>

definition KgeUniformSampler_sample_shared ::
  "sampler \<Rightarrow> triple list \<Rightarrow> slot \<Rightarrow> int \<Rightarrow> rng \<Rightarrow> error + int list \<times> rng" where
  "KgeUniformSampler_sample_shared self positive_triples slot n g =
     (case KgeUniformSampler_sample self 1 slot n g of
        Inl e \<Rightarrow> Inl e
      | Inr (m, g') \<Rightarrow> Inr (concat m, g'))"

definition KgeFrequencySampler_sample_shared ::
  "sampler \<Rightarrow> triple list \<Rightarrow> slot \<Rightarrow> int \<Rightarrow> rng \<Rightarrow> error + int list \<times> rng" where
  "KgeFrequencySampler_sample_shared self positive_triples slot n g =
     (case KgeFrequencySampler_sample self 1 slot n g of
        Inl e \<Rightarrow> Inl e
      | Inr (m, g') \<Rightarrow> Inr (concat m, g'))"

definition sampler_sample_shared ::
  "sampler \<Rightarrow> triple list \<Rightarrow> slot \<Rightarrow> int \<Rightarrow> rng \<Rightarrow> error + int list \<times> rng" where
  "sampler_sample_shared self positive_triples slot n g =
     (case strategy self of
        Uniform \<Rightarrow> KgeUniformSampler_sample_shared self positive_triples slot n g
      | Frequency \<Rightarrow> KgeFrequencySampler_sample_shared self positive_triples slot n g)"

subsection \<open>Filter and resample\<close>

text \<open>
  Modelled from the spec: \<^verbatim>\<open>where_in\<close> of \<^verbatim>\<open>kge.indexing\<close>, which is not in the source
  file. Given an array of candidates \<open>x\<close> and an array of positives \<open>y\<close>, it returns the
  indexes of the candidates that are present in \<open>y\<close>, or with \<open>not_in\<close> those that are
  not, in increasing order; duplicates and the order of \<open>y\<close> do not matter.
\<close>

definition where_in :: "int list \<Rightarrow> int list \<Rightarrow> bool \<Rightarrow> nat list" where
  "where_in x y not_in = filter (\<lambda>k. (x ! k \<in> set y) \<noteq> not_in) [0..<length x]"

text \<open>The slice \<^verbatim>\<open>xs[a : b]\<close> for \<open>a \<le> b\<close>.\<close>

definition slice :: "'a list \<Rightarrow> nat \<Rightarrow> nat \<Rightarrow> 'a list" where
  "slice xs a b = take (b - a) (drop a xs)"

text \<open>
  The assignment \<^verbatim>\<open>row[js] = vs\<close> through an index array. The loop below calls it with
  \<open>js\<close> and \<open>vs\<close> of the same length and every index inside the row.
\<close>

definition index_put :: "int list \<Rightarrow> nat list \<Rightarrow> int list \<Rightarrow> int list" where
  "index_put row js vs = fold (\<lambda>(j, v) r. r[j := v]) (zip js vs) row"

text \<open>
  The \<^verbatim>\<open>while num_remaining:\<close> loop of \<^verbatim>\<open>KgeSampler._filter_and_resample\<close> for one row.
  The variable \<^verbatim>\<open>num_remaining\<close> is \<open>num_new - num_found\<close> throughout (it is assigned
  only with that value), and \<open>num_found\<close> never exceeds \<open>num_new\<close>, since a round
  draws \<open>num_remaining\<close> candidates and accepts some of them.
\<close>

partial_function (option) resample_loop ::
  "sampler \<Rightarrow> slot \<Rightarrow> int list \<Rightarrow> nat list \<Rightarrow> nat \<Rightarrow> int list \<Rightarrow> nat \<Rightarrow> rng
     \<Rightarrow> (error + int list \<times> rng) option" where
  "resample_loop self slot positives resample_idx num_new row num_found g =
     (if num_new - num_found = 0 then Some (Inr (row, g))
      else
        (case sampler_sample self 1 slot (int (num_new - num_found)) g of
           Inl e \<Rightarrow> Some (Inl e)
         | Inr (m, g') \<Rightarrow>
             (let new_samples = concat m;
                  tn_idx = where_in new_samples positives True
              in
                if tn_idx \<noteq> [] then
                  resample_loop self slot positives resample_idx num_new
                    (index_put row
                       (slice resample_idx num_found (num_found + length tn_idx))
                       (map ((!) new_samples) tn_idx))
                    (num_found + length tn_idx) g'
                else
                  resample_loop self slot positives resample_idx num_new
                    row num_found g')))"

declare resample_loop.simps [code]

text \<open>
  The \<^verbatim>\<open>for i in range(positive_triples.size(0))\<close> loop, from row \<open>i\<close> on, over the
  triples still to visit. \<open>idx\<close> is the positive-pair index of the slot.
\<close>

fun filter_rows ::
  "sampler \<Rightarrow> slot \<Rightarrow> (int \<times> int \<Rightarrow> int list) \<Rightarrow> triple list \<Rightarrow> nat \<Rightarrow> int list list \<Rightarrow> rng
     \<Rightarrow> (error + int list list \<times> rng) option" where
  "filter_rows self slot idx [] i negative_samples g = Some (Inr (negative_samples, g))"
| "filter_rows self slot idx (t # ts) i negative_samples g =
     (if length negative_samples \<le> i then Some (Inl IndexError)
      else
        (let positives = idx (pair_of slot t);
             resample_idx = where_in (negative_samples ! i) positives False;
             num_new = length resample_idx
         in case resample_loop self slot positives resample_idx num_new
                   (negative_samples ! i) 0 g of
              None \<Rightarrow> None
            | Some (Inl e) \<Rightarrow> Some (Inl e)
            | Some (Inr (row, g')) \<Rightarrow>
                filter_rows self slot idx ts (Suc i) (negative_samples[i := row]) g'))"

definition KgeSampler_filter_and_resample ::
  "sampler \<Rightarrow> int list list \<Rightarrow> slot \<Rightarrow> triple list \<Rightarrow> rng
     \<Rightarrow> (error + int list list \<times> rng) option" where
  "KgeSampler_filter_and_resample self negative_samples slot positive_triples g =
     filter_rows self slot
       (index (sampler_dataset self) (index_name (filtering_split self) slot))
       positive_triples 0 negative_samples g"

text \<open>\<^verbatim>\<open>KgeSampler._filter_and_resample_fast\<close> of the base class.\<close>

definition KgeSampler_filter_and_resample_fast ::
  "sampler \<Rightarrow> int list list \<Rightarrow> slot \<Rightarrow> triple list \<Rightarrow> rng
     \<Rightarrow> (error + int list list \<times> rng) option" where
  "KgeSampler_filter_and_resample_fast self negative_samples slot positive_triples g =
     Some (Inl (NotImplementedError
                  ''Use filtering.implementation=standard for this sampler.''))"

text \<open>
  The inner \<^verbatim>\<open>for j in resample_idx[...]\<close> loop of \<^verbatim>\<open>_filter_and_resample_numba\<close>:
  \<^verbatim>\<open>negative_samples[i, j] = new_samples[ctr]; ctr += 1\<close>.
\<close>

fun write_loop :: "nat list \<Rightarrow> int list \<Rightarrow> nat \<Rightarrow> int list \<Rightarrow> int list" where
  "write_loop [] new_samples ctr row = row"
| "write_loop (j # js) new_samples ctr row =
     write_loop js new_samples (ctr + 1) (row[j := new_samples ! ctr])"

text \<open>The \<^verbatim>\<open>while num_remaining:\<close> loop of \<^verbatim>\<open>_filter_and_resample_numba\<close> for one row.\<close>

partial_function (option) numba_loop ::
  "int \<Rightarrow> int list \<Rightarrow> nat list \<Rightarrow> nat \<Rightarrow> int list \<Rightarrow> nat \<Rightarrow> rng
     \<Rightarrow> (error + int list \<times> rng) option" where
  "numba_loop voc_size positives resample_idx num_new row num_found g =
     (if num_new - num_found = 0 then Some (Inr (row, g))
      else
        (case np_random_randint voc_size (num_new - num_found) g of
           Inl e \<Rightarrow> Some (Inl e)
         | Inr (new_samples, g') \<Rightarrow>
             (let idx = where_in new_samples positives True
              in
                if idx \<noteq> [] then
                  numba_loop voc_size positives resample_idx num_new
                    (write_loop
                       (slice resample_idx num_found (num_found + length idx))
                       new_samples 0 row)
                    (num_found + length idx) g'
                else
                  numba_loop voc_size positives resample_idx num_new
                    row num_found g')))"

declare numba_loop.simps [code]

text \<open>
  \<^verbatim>\<open>_filter_and_resample_numba\<close>: the \<^verbatim>\<open>for i in range(batch_size)\<close> loop from row \<open>i\<close>
  on, over the pairs still to visit; \<open>positives_index\<close> is the dictionary filled by the
  caller. The compiled loop checks no bounds: past the last row of the matrix it reads
  and writes memory outside the array, which is unspecified here (\<open>!\<close> past the end of a
  list) and leaves the matrix as it is (\<open>[i := row]\<close> past the end).
\<close>

fun numba_rows ::
  "((int \<times> int) \<rightharpoonup> int list) \<Rightarrow> int \<Rightarrow> (int \<times> int) list \<Rightarrow> nat \<Rightarrow> int list list \<Rightarrow> rng
     \<Rightarrow> (error + int list list \<times> rng) option" where
  "numba_rows positives_index voc_size [] i negative_samples g =
     Some (Inr (negative_samples, g))"
| "numba_rows positives_index voc_size (pair # pairs) i negative_samples g =
     (case positives_index pair of
        None \<Rightarrow> Some (Inl KeyError)
      | Some positives \<Rightarrow>
          (let resample_idx = where_in (negative_samples ! i) positives False;
               num_new = length resample_idx
           in case numba_loop voc_size positives resample_idx num_new
                     (negative_samples ! i) 0 g of
                None \<Rightarrow> None
              | Some (Inl e) \<Rightarrow> Some (Inl e)
              | Some (Inr (row, g')) \<Rightarrow>
                  numba_rows positives_index voc_size pairs (Suc i)
                    (negative_samples[i := row]) g'))"

definition KgeUniformSampler_filter_and_resample_numba ::
  "int list list \<Rightarrow> (int \<times> int) list \<Rightarrow> ((int \<times> int) \<rightharpoonup> int list) \<Rightarrow> nat \<Rightarrow> int \<Rightarrow> rng
     \<Rightarrow> (error + int list list \<times> rng) option" where
  "KgeUniformSampler_filter_and_resample_numba negative_samples pairs positives_index
       batch_size voc_size g =
     numba_rows positives_index voc_size (take batch_size pairs) 0 negative_samples g"

text \<open>
  \<^verbatim>\<open>KgeUniformSampler._filter_and_resample_fast\<close>: fill the dictionary from the pairs of
  the batch, then run the compiled loop. \<^verbatim>\<open>numba.typed.Dict()\<close> takes its type from the
  first insertion; for an empty batch it is still untyped when it is passed to the
  compiled function, which numba refuses with \<^verbatim>\<open>TypeError\<close>.
\<close>

definition fill_positives_index ::
  "(int \<times> int \<Rightarrow> int list) \<Rightarrow> (int \<times> int) list \<Rightarrow> ((int \<times> int) \<rightharpoonup> int list)" where
  "fill_positives_index idx pairs = fold (\<lambda>pair d. d(pair \<mapsto> idx pair)) pairs Map.empty"

definition KgeUniformSampler_filter_and_resample_fast ::
  "sampler \<Rightarrow> int list list \<Rightarrow> slot \<Rightarrow> triple list \<Rightarrow> rng
     \<Rightarrow> (error + int list list \<times> rng) option" where
  "KgeUniformSampler_filter_and_resample_fast self negative_samples slot positive_triples g =
     (let idx = index (sampler_dataset self) (index_name (filtering_split self) slot);
          pairs = map (pair_of slot) positive_triples;
          batch_size = length positive_triples;
          voc_size = vocabulary_size self slot;
          positives_index = fill_positives_index idx pairs
      in if batch_size = 0 then Some (Inl TypeError)
         else KgeUniformSampler_filter_and_resample_numba negative_samples pairs
                positives_index batch_size voc_size g)"

text \<open>The two filter methods, dispatched on the class of the object.\<close>

definition sampler_filter_and_resample_fast ::
  "sampler \<Rightarrow> int list list \<Rightarrow> slot \<Rightarrow> triple list \<Rightarrow> rng
     \<Rightarrow> (error + int list list \<times> rng) option" where
  "sampler_filter_and_resample_fast self negative_samples slot positive_triples g =
     (case strategy self of
        Uniform \<Rightarrow>
          KgeUniformSampler_filter_and_resample_fast self negative_samples slot
            positive_triples g
      | Frequency \<Rightarrow>
          KgeSampler_filter_and_resample_fast self negative_samples slot
            positive_triples g)"

subsection \<open>The public operation \<^verbatim>\<open>KgeSampler.sample\<close>\<close>

text \<open>
  The result carries the matrix, the sampler after the call (the call may assign
  \<^verbatim>\<open>self.filter_implementation\<close>) and the generator left behind. An exception leaves
  the sampler as it was, since each assignment follows the call it records.
  The rows of the broadcast matrix \<^verbatim>\<open>expand(...)\<close> are independent lists here; in torch
  they are one piece of memory, which matters only if the matrix is filtered, and the
  constructor refuses filtering together with shared sampling.
\<close>

definition with_sampler ::
  "sampler \<Rightarrow> (error + int list list \<times> rng) option
     \<Rightarrow> (error + int list list \<times> sampler \<times> rng) option" where
  "with_sampler self r =
     (case r of
        None \<Rightarrow> None
      | Some (Inl e) \<Rightarrow> Some (Inl e)
      | Some (Inr (m, g)) \<Rightarrow> Some (Inr (m, self, g)))"

text \<open>
  The first statement of \<^verbatim>\<open>sample\<close> after the default for \<^verbatim>\<open>num_samples\<close>: the shared
  vector broadcast to the batch, or one draw per row.
\<close>

definition negative_samples_drawn ::
  "sampler \<Rightarrow> triple list \<Rightarrow> slot \<Rightarrow> int \<Rightarrow> rng \<Rightarrow> error + int list list \<times> rng" where
  "negative_samples_drawn self positive_triples slot n g =
     (if shared self then
        (case sampler_sample_shared self positive_triples slot n g of
           Inl e \<Rightarrow> Inl e
         | Inr (v, g') \<Rightarrow> Inr (replicate (length positive_triples) v, g'))
      else sampler_sample self (length positive_triples) slot n g)"

definition KgeSampler_sample ::
  "sampler \<Rightarrow> triple list \<Rightarrow> slot \<Rightarrow> int option \<Rightarrow> rng
     \<Rightarrow> (error + int list list \<times> sampler \<times> rng) option" where
  "KgeSampler_sample self positive_triples slot num_samples_arg g =
     (let n = (case num_samples_arg of None \<Rightarrow> num_samples self slot | Some k \<Rightarrow> k)
      in case negative_samples_drawn self positive_triples slot n g of
           Inl e \<Rightarrow> Some (Inl e)
         | Inr (negative_samples, g') \<Rightarrow>
             if filter_positives self slot then
               (case filter_implementation self of
                  None \<Rightarrow> Some (Inl AttributeError)
                | Some impl \<Rightarrow>
                    if impl = ''fast'' then
                      with_sampler self
                        (sampler_filter_and_resample_fast self negative_samples slot
                           positive_triples g')
                    else if impl = ''standard'' then
                      with_sampler self
                        (KgeSampler_filter_and_resample self negative_samples slot
                           positive_triples g')
                    else
                      (case sampler_filter_and_resample_fast self negative_samples slot
                              positive_triples g' of
                         None \<Rightarrow> None
                       | Some (Inr (m, g'')) \<Rightarrow>
                           Some (Inr (m, self\<lparr>filter_implementation := Some ''fast''\<rparr>, g''))
                       | Some (Inl (NotImplementedError msg)) \<Rightarrow>
                           with_sampler (self\<lparr>filter_implementation := Some ''standard''\<rparr>)
                             (KgeSampler_filter_and_resample self negative_samples slot
                                positive_triples g')
                       | Some (Inl e) \<Rightarrow> Some (Inl e)))
             else Some (Inr (negative_samples, self, g')))"

subsection \<open>Notions used in the statements\<close>

text \<open>
  The range of a strategy for a slot: its draws lie in \<open>[0, sample_range)\<close>, and the
  range is empty exactly when a draw raises. \<open>drawable\<close> lists the values that can be
  drawn: the whole range for the uniform strategy, the indexes of positive probability
  for the frequency strategy. \<open>draws_of self slot g\<close> is the sequence of values that the
  strategy makes of the raw values of the generator \<open>g\<close>.
\<close>

definition sample_range :: "sampler \<Rightarrow> slot \<Rightarrow> nat" where
  "sample_range self slot =
     (case strategy self of
        Uniform \<Rightarrow> nat (vocabulary_size self slot)
      | Frequency \<Rightarrow>
          if alias_support (multinomials self slot) = [] then 0
          else length (multinomials self slot))"


definition draws_of :: "sampler \<Rightarrow> slot \<Rightarrow> rng \<Rightarrow> rng" where
  "draws_of self slot g =
     (case strategy self of
        Uniform \<Rightarrow> g
      | Frequency \<Rightarrow> (\<lambda>k. alias_draw (multinomials self slot) (g k)))"

text \<open>
  The \<open>cnt\<close> candidates drawn from the oracle from position \<open>off\<close> on, and those of a
  list of candidates that are not known positives (the accepted ones), in draw order.
\<close>

definition fresh :: "nat \<Rightarrow> rng \<Rightarrow> nat \<Rightarrow> nat \<Rightarrow> int list" where
  "fresh K g off cnt = map (\<lambda>j. int (g (off + j) mod K)) [0..<cnt]"

definition accepted :: "int list \<Rightarrow> int list \<Rightarrow> int list" where
  "accepted positives xs = filter (\<lambda>v. v \<notin> set positives) xs"

text \<open>
  The known positives of a triple at a slot, as both filters look them up:
  \<^verbatim>\<open>index.get((pairs[i][0], pairs[i][1]))\<close>.
\<close>

definition positives_of :: "sampler \<Rightarrow> slot \<Rightarrow> triple \<Rightarrow> int list" where
  "positives_of self slot t =
     index (sampler_dataset self) (index_name (filtering_split self) slot) (pair_of slot t)"

text \<open>
  \<open>resampled K positives g row row'\<close>: the row \<open>row'\<close> is \<open>row\<close> with its colliding
  positions, in increasing order, overwritten by the accepted ones among some \<open>cnt\<close>
  consecutive candidates of the oracle, in draw order, one for each colliding position.
\<close>

definition resampled :: "nat \<Rightarrow> int list \<Rightarrow> rng \<Rightarrow> int list \<Rightarrow> int list \<Rightarrow> bool" where
  "resampled K positives g row row' \<longleftrightarrow>
     (\<exists>off cnt.
        length (accepted positives (fresh K g off cnt))
          = length (where_in row positives False)
        \<and> row' = index_put row (where_in row positives False)
                   (accepted positives (fresh K g off cnt)))"

text \<open>
  \<open>rewritten K positives row row'\<close>: the row \<open>row'\<close> has the length of \<open>row\<close>, agrees
  with it wherever \<open>row\<close> holds no known positive, and holds a value of \<open>[0, K)\<close>
  wherever it differs.
\<close>

definition rewritten :: "int \<Rightarrow> int list \<Rightarrow> int list \<Rightarrow> int list \<Rightarrow> bool" where
  "rewritten K positives row row' \<longleftrightarrow>
     length row' = length row
     \<and> (\<forall>j<length row.
          (row ! j \<notin> set positives \<longrightarrow> row' ! j = row ! j)
          \<and> (row' ! j = row ! j \<or> (0 \<le> row' ! j \<and> row' ! j < K)))"

text \<open>
  \<open>fair_draws K positives g\<close>: the oracle keeps delivering candidates that are not known
  positives (infinitely many of its draws from \<open>[0, K)\<close> fall outside \<open>positives\<close>).
  \<open>stuck_draws K positives g\<close>: every draw of the oracle is a known positive.
\<close>

definition fair_draws :: "nat \<Rightarrow> int list \<Rightarrow> rng \<Rightarrow> bool" where
  "fair_draws K positives g \<longleftrightarrow> (\<forall>m. \<exists>n\<ge>m. int (g n mod K) \<notin> set positives)"

definition stuck_draws :: "nat \<Rightarrow> int list \<Rightarrow> rng \<Rightarrow> bool" where
  "stuck_draws K positives g \<longleftrightarrow> (\<forall>n. int (g n mod K) \<in> set positives)"


text \<open>
  \<open>train_split_in_range config ds\<close>: every index of the training split is below the size of
  its vocabulary (entities for subject and object, relations for the predicate).
\<close>

definition train_split_in_range :: "config \<Rightarrow> dataset \<Rightarrow> bool" where
  "train_split_in_range config ds \<longleftrightarrow>
     (\<forall>t\<in>set (split ds (cfg_train_split config)). \<forall>slot\<in>set SLOTS.
        triple_at t slot < (if slot = P_slot then num_relations ds else num_entities ds))"

text \<open>
  The sampler object after a sequence of \<^verbatim>\<open>sample\<close> calls, each given by its arguments and
  the generator it runs on. A call that raises leaves the object as it was; after a call
  that does not return there is no later call.
\<close>

fun sampler_after ::
  "sampler \<Rightarrow> (triple list \<times> slot \<times> int option \<times> rng) list \<Rightarrow> sampler option" where
  "sampler_after self [] = Some self"
| "sampler_after self ((positive_triples, slot, num_samples_arg, g) # calls) =
     (case KgeSampler_sample self positive_triples slot num_samples_arg g of
        None \<Rightarrow> None
      | Some (Inl e) \<Rightarrow> sampler_after self calls
      | Some (Inr (m, self', g')) \<Rightarrow> sampler_after self' calls)"

subsection \<open>Concrete inputs\<close>

text \<open>
  A small dataset (ten entities, four relations, three training triples, the pair
  \<open>(0, 0)\<close> with the known positives 3 and 7) and a configuration, at which the theorems
  below are instantiated.
\<close>

definition example_dataset :: dataset where
  "example_dataset =
     \<lparr> num_entities = 10, num_relations = 4,
       index = (\<lambda>name key. if key = (0, 0) then [3, 7] else []),
       split = (\<lambda>name. [(0, 0, 3), (0, 0, 7), (2, 1, 5)]) \<rparr>"

definition example_config :: config where
  "example_config =
     \<lparr> cfg_shared = False, cfg_filtering_split = '''', cfg_train_split = ''train'',
       cfg_num_samples = (\<lambda>s. case s of S_slot \<Rightarrow> - 1 | P_slot \<Rightarrow> - 1 | O_slot \<Rightarrow> 5),
       cfg_filtering = (\<lambda>s. s = O_slot),
       cfg_filtering_implementation = ''fast_if_available'',
       cfg_sampling_type = ''uniform'', cfg_frequency_smoothing = 1 \<rparr>"

text \<open>The same configuration with the frequency strategy and the standard filter.\<close>

definition example_frequency_config :: config where
  "example_frequency_config =
     example_config \<lparr> cfg_filtering_implementation := ''standard'',
                      cfg_sampling_type := ''frequency'' \<rparr>"

text \<open>A configuration with shared sampling, three samples per slot and no filtering.\<close>

definition example_shared_config :: config where
  "example_shared_config =
     example_config \<lparr> cfg_shared := True, cfg_num_samples := (\<lambda>s. 3),
                      cfg_filtering := (\<lambda>s. False) \<rparr>"

text \<open>
  The sampler that the factory returns for \<open>example_config\<close>, with the standard filter
  chosen, and a frequency sampler over the same dataset with \<^verbatim>\<open>fast_if_available\<close>.
\<close>

definition example_sampler :: sampler where
  "example_sampler =
     \<lparr> strategy = Uniform,
       num_samples = (\<lambda>slot. case slot of S_slot \<Rightarrow> 5 | P_slot \<Rightarrow> 0 | O_slot \<Rightarrow> 5),
       filter_positives = (\<lambda>slot. slot = O_slot),
       vocabulary_size = (\<lambda>slot. if slot = P_slot then 4 else 10),
       shared = False, filtering_split = ''train'',
       filter_implementation = Some ''standard'',
       sampler_dataset = example_dataset, multinomials = (\<lambda>slot. []) \<rparr>"

definition example_frequency_sampler :: sampler where
  "example_frequency_sampler =
     example_sampler
       \<lparr> strategy := Frequency, filter_implementation := Some ''fast_if_available'',
         multinomials := (\<lambda>slot. replicate (if slot = P_slot then 4 else 10) (1 / 10)) \<rparr>"






text \<open>
  Oracles: the raw values 3, 5, 7, 2 (a row with the two known positives 3 and 7), then
  7, 8 and 9, then zeros; and the oracle that counts.
\<close>

definition example_draws :: rng where
  "example_draws = (\<lambda>k. if k < 7 then [3, 5, 7, 2, 7, 8, 9] ! k else 0)"

definition counting_draws :: rng where
  "counting_draws = (\<lambda>k. k)"

section \<open>Construction\<close>

lemma list_ex_SLOTS: "list_ex f SLOTS \<longleftrightarrow> (\<exists>slot. f slot)"
proof -
  have "(\<exists>slot. f slot) \<longleftrightarrow> f S_slot \<or> f P_slot \<or> f O_slot"
    by (metis slot.exhaust)
  then show ?thesis by (simp add: SLOTS_def)
qed

lemma auto_config_S:
  "auto_config ns S_slot =
     (if ns S_slot < 0 then (if 0 < ns O_slot then ns O_slot else 0) else ns S_slot)"
  by (simp add: auto_config_def auto_config_step_def)

lemma auto_config_P:
  "auto_config ns P_slot = (if ns P_slot < 0 then 0 else ns P_slot)"
  by (simp add: auto_config_def auto_config_step_def)

lemma auto_config_O:
  "auto_config ns O_slot =
     (if ns O_slot < 0 then (if 0 < ns S_slot then ns S_slot else 0) else ns O_slot)"
  by (simp add: auto_config_def auto_config_step_def)

lemma auto_config_nonneg: "0 \<le> auto_config ns slot"
  by (cases slot) (simp_all add: auto_config_S auto_config_P auto_config_O)

lemma KgeSampler_init_Inr:
  assumes "KgeSampler_init cls config ds = Inr (self, requested)"
  shows "self =
     \<lparr> strategy = cls,
       num_samples = auto_config (cfg_num_samples config),
       filter_positives = cfg_filtering config,
       vocabulary_size = (\<lambda>slot. if slot = P_slot then num_relations ds else num_entities ds),
       shared = cfg_shared config,
       filtering_split =
         (if cfg_filtering_split config = '''' then cfg_train_split config
          else cfg_filtering_split config),
       filter_implementation =
         (if list_ex (cfg_filtering config) SLOTS
          then Some (cfg_filtering_implementation config) else None),
       sampler_dataset = ds,
       multinomials = (\<lambda>slot. []) \<rparr>"
    and "requested =
       map (index_name (if cfg_filtering_split config = '''' then cfg_train_split config
                        else cfg_filtering_split config))
         (filter (cfg_filtering config) SLOTS)"
    and "\<not> (list_ex (cfg_filtering config) SLOTS \<and> cfg_shared config)"
    and "list_ex (cfg_filtering config) SLOTS \<Longrightarrow>
           cfg_filtering_implementation config \<in> {''standard'', ''fast'', ''fast_if_available''}"
    and "tensors_fit config ds"
  using assms by (auto simp: KgeSampler_init_def Let_def split: if_splits)

text \<open>
  Claim C6. A sampler that the constructor returns has, for the subject slot, the
  configured count if that is not negative, else the configured object count if that is
  positive, else 0; symmetrically for the object slot; and for the predicate slot the
  configured count, or 0 if that is negative, whatever the other slots hold.
\<close>

theorem auto_derivation:
  assumes "KgeSampler_init cls config ds = Inr (self, requested)"
  shows "num_samples self S_slot =
           (if cfg_num_samples config S_slot < 0
            then (if 0 < cfg_num_samples config O_slot then cfg_num_samples config O_slot else 0)
            else cfg_num_samples config S_slot)
       \<and> num_samples self O_slot =
           (if cfg_num_samples config O_slot < 0
            then (if 0 < cfg_num_samples config S_slot then cfg_num_samples config S_slot else 0)
            else cfg_num_samples config O_slot)
       \<and> num_samples self P_slot =
           (if cfg_num_samples config P_slot < 0 then 0 else cfg_num_samples config P_slot)"
  unfolding KgeSampler_init_Inr(1) [OF assms]
  by (simp add: auto_config_S auto_config_P auto_config_O)

lemma KgeSampler_init_succeeds:
  assumes "tensors_fit config ds"
    and "\<not> (list_ex (cfg_filtering config) SLOTS \<and> cfg_shared config)"
    and "list_ex (cfg_filtering config) SLOTS \<longrightarrow>
           cfg_filtering_implementation config \<in> {''standard'', ''fast'', ''fast_if_available''}"
  shows "\<exists>self requested. KgeSampler_init cls config ds = Inr (self, requested)"
  using assms by (auto simp: KgeSampler_init_def Let_def)

lemma example_tensors_fit:
  "tensors_fit example_config example_dataset"
  "tensors_fit (example_config \<lparr> cfg_shared := True \<rparr>) example_dataset"
  "tensors_fit (example_config \<lparr> cfg_shared := True, cfg_filtering := (\<lambda>s. False) \<rparr>)
     example_dataset"
  by (simp_all add: tensors_fit_def int32_range_def example_config_def example_dataset_def
        SLOTS_def)

text \<open>
  With \<open>num_samples.s = -1\<close>, \<open>num_samples.p = -1\<close> and \<open>num_samples.o = 5\<close> the subject
  slot gets 5 and the predicate slot 0.
\<close>

theorem auto_derivation_witness:
  "\<exists>self requested.
     KgeSampler_init Uniform example_config example_dataset = Inr (self, requested)
     \<and> num_samples self S_slot = 5 \<and> num_samples self O_slot = 5
     \<and> num_samples self P_slot = 0"
proof -
  obtain self requested
    where ok: "KgeSampler_init Uniform example_config example_dataset = Inr (self, requested)"
    using KgeSampler_init_succeeds [OF example_tensors_fit(1), of Uniform]
    by (auto simp: example_config_def SLOTS_def)
  from auto_derivation [OF ok] have
    "num_samples self S_slot = 5 \<and> num_samples self O_slot = 5 \<and> num_samples self P_slot = 0"
    by (simp add: example_config_def)
  with ok show ?thesis by blast
qed

lemma filtering_shared_error_neq:
  "check_option_error \<noteq> filtering_shared_error"
  "tensor_overflow_error \<noteq> filtering_shared_error"
  "ValueError (k @ ''.sampling_type'') \<noteq> filtering_shared_error"
  "ValueError ''bincount: negative element'' \<noteq> filtering_shared_error"
  "ValueError ''bincount: negative minlength'' \<noteq> filtering_shared_error"
proof -
  show "check_option_error \<noteq> filtering_shared_error"
    by (simp add: check_option_error_def filtering_shared_error_def)
  show "tensor_overflow_error \<noteq> filtering_shared_error"
    by (simp add: tensor_overflow_error_def filtering_shared_error_def)
  have "last (k @ ''.sampling_type'') \<noteq>
        last ''Filtering is not supported when shared negative sampling is enabled.''"
    by simp
  then show "ValueError (k @ ''.sampling_type'') \<noteq> filtering_shared_error"
    unfolding filtering_shared_error_def by (metis error.inject(1))
  show "ValueError ''bincount: negative element'' \<noteq> filtering_shared_error"
    by (simp add: filtering_shared_error_def)
  show "ValueError ''bincount: negative minlength'' \<noteq> filtering_shared_error"
    by (simp add: filtering_shared_error_def)
qed

lemma KgeSampler_init_shared_error:
  "KgeSampler_init cls config ds = Inl filtering_shared_error
     \<longleftrightarrow> tensors_fit config ds \<and> (\<exists>slot. cfg_filtering config slot) \<and> cfg_shared config"
  using filtering_shared_error_neq(1,2)
  by (auto simp: KgeSampler_init_def Let_def list_ex_SLOTS)

lemma KgeSampler_init_fails:
  assumes "(\<exists>slot. cfg_filtering config slot) \<and> cfg_shared config"
  shows "\<exists>e. KgeSampler_init cls config ds = Inl e"
  using assms by (auto simp: KgeSampler_init_def Let_def list_ex_SLOTS)

lemma frequency_table_error:
  "frequency_table config ds self slot \<noteq> Inl filtering_shared_error"
  using filtering_shared_error_neq(4,5)
  by (auto simp: frequency_table_def bincount_def Let_def split: sum.splits if_splits)

lemma KgeFrequencySampler_init_shared_error:
  "KgeFrequencySampler_init config ds = Inl filtering_shared_error
     \<longleftrightarrow> KgeSampler_init Frequency config ds = Inl filtering_shared_error"
  using frequency_table_error
  by (auto simp: KgeFrequencySampler_init_def split: sum.splits prod.splits)

text \<open>
  Claim C7. When the configured counts and the vocabulary sizes fit the 32-bit tensors
  of the sampler, the constructor fails with the error "Filtering is not supported when
  shared negative sampling is enabled." exactly when some slot is filtered and shared
  sampling is on; so does the factory, for the two sampling types it knows. Whatever the
  numbers are, construction fails when some slot is filtered and shared sampling is on
  (a number that does not fit raises \<^verbatim>\<open>RuntimeError\<close> before the check is reached), and
  it never fails with this error otherwise.
\<close>

theorem filtering_with_shared_rejected:
  "(tensors_fit config ds \<longrightarrow>
      (KgeSampler_init cls config ds = Inl filtering_shared_error
         \<longleftrightarrow> (\<exists>slot. cfg_filtering config slot) \<and> cfg_shared config)
      \<and> (create config configuration_key ds = Inl filtering_shared_error
         \<longleftrightarrow> (\<exists>slot. cfg_filtering config slot) \<and> cfg_shared config
             \<and> cfg_sampling_type config \<in> {''uniform'', ''frequency''}))
   \<and> ((\<exists>slot. cfg_filtering config slot) \<and> cfg_shared config \<longrightarrow>
        (\<exists>e. KgeSampler_init cls config ds = Inl e)
        \<and> (\<exists>e. create config configuration_key ds = Inl e))
   \<and> (\<not> ((\<exists>slot. cfg_filtering config slot) \<and> cfg_shared config) \<longrightarrow>
        KgeSampler_init cls config ds \<noteq> Inl filtering_shared_error
        \<and> create config configuration_key ds \<noteq> Inl filtering_shared_error)"
proof -
  have c: "create config configuration_key ds = Inl filtering_shared_error
      \<longleftrightarrow> tensors_fit config ds \<and> (\<exists>slot. cfg_filtering config slot) \<and> cfg_shared config
          \<and> cfg_sampling_type config \<in> {''uniform'', ''frequency''}"
    using filtering_shared_error_neq(3) [of configuration_key]
    by (auto simp: create_def KgeUniformSampler_init_def KgeFrequencySampler_init_shared_error
          KgeSampler_init_shared_error)
  have f: "\<exists>e. create config configuration_key ds = Inl e"
    if "(\<exists>slot. cfg_filtering config slot) \<and> cfg_shared config"
  proof -
    from KgeSampler_init_fails [OF that] obtain eu ef where
      "KgeSampler_init Uniform config ds = Inl eu" "KgeSampler_init Frequency config ds = Inl ef"
      by blast
    then show ?thesis
      by (simp add: create_def KgeUniformSampler_init_def KgeFrequencySampler_init_def)
  qed
  show ?thesis
    using c f KgeSampler_init_fails [of config cls ds]
    by (simp add: KgeSampler_init_shared_error)
qed

theorem filtering_with_shared_rejected_witness:
  "KgeSampler_init Uniform (example_config \<lparr> cfg_shared := True \<rparr>) example_dataset
     = Inl filtering_shared_error
   \<and> create (example_config \<lparr> cfg_shared := True \<rparr>) ''negative_sampling'' example_dataset
     = Inl filtering_shared_error
   \<and> KgeSampler_init Uniform example_config example_dataset \<noteq> Inl filtering_shared_error
   \<and> create (example_config \<lparr> cfg_shared := True, cfg_filtering := (\<lambda>s. False) \<rparr>)
        ''negative_sampling'' example_dataset \<noteq> Inl filtering_shared_error
   \<and> KgeSampler_init Uniform
        (example_config \<lparr> cfg_shared := True, cfg_num_samples := (\<lambda>s. 2 ^ 31) \<rparr>)
        example_dataset = Inl tensor_overflow_error"
proof -
  have a: "cfg_filtering example_config O_slot" "\<not> cfg_shared example_config"
    "cfg_sampling_type example_config = ''uniform''"
    by (simp_all add: example_config_def)
  have o: "KgeSampler_init Uniform
        (example_config \<lparr> cfg_shared := True, cfg_num_samples := (\<lambda>s. 2 ^ 31) \<rparr>)
        example_dataset = Inl tensor_overflow_error"
    by (simp add: KgeSampler_init_def tensors_fit_def int32_range_def SLOTS_def)
  show ?thesis
    using a o example_tensors_fit filtering_with_shared_rejected
      [of "example_config \<lparr> cfg_shared := True \<rparr>" example_dataset Uniform "''negative_sampling''"]
      filtering_with_shared_rejected
      [of example_config example_dataset Uniform "''negative_sampling''"]
      filtering_with_shared_rejected
      [of "example_config \<lparr> cfg_shared := True, cfg_filtering := (\<lambda>s. False) \<rparr>"
          example_dataset Uniform "''negative_sampling''"]
    by auto
qed

text \<open>
  Claim C10. With an empty \<^verbatim>\<open>negative_sampling.filtering.split\<close> the sampler's filtering
  split is the training split: the indexes requested at construction are those of the
  training split, and both filter implementations look the positives up in them.
\<close>

theorem empty_filtering_split_is_train_split:
  assumes "cfg_filtering_split config = ''''"
    and "KgeSampler_init cls config ds = Inr (self, requested)"
  shows "filtering_split self = cfg_train_split config
    \<and> requested = map (index_name (cfg_train_split config)) (filter (cfg_filtering config) SLOTS)
    \<and> KgeSampler_filter_and_resample self negative_samples slot positive_triples g =
           filter_rows self slot (index ds (index_name (cfg_train_split config) slot))
             positive_triples 0 negative_samples g
    \<and> KgeUniformSampler_filter_and_resample_fast self negative_samples slot positive_triples g =
           (if positive_triples = [] then Some (Inl TypeError)
            else
              KgeUniformSampler_filter_and_resample_numba negative_samples
                (map (pair_of slot) positive_triples)
                (fill_positives_index (index ds (index_name (cfg_train_split config) slot))
                   (map (pair_of slot) positive_triples))
                (length positive_triples) (vocabulary_size self slot) g)"
  using KgeSampler_init_Inr(2) [OF assms(2)] assms(1)
  unfolding KgeSampler_init_Inr(1) [OF assms(2)]
  by (simp add: KgeSampler_filter_and_resample_def
        KgeUniformSampler_filter_and_resample_fast_def Let_def)

theorem empty_filtering_split_is_train_split_witness:
  "\<exists>self requested.
     KgeSampler_init Uniform example_config example_dataset = Inr (self, requested)
     \<and> filtering_split self = ''train'' \<and> requested = [''train_sp_to_o'']"
proof -
  obtain self requested
    where ok: "KgeSampler_init Uniform example_config example_dataset = Inr (self, requested)"
    using KgeSampler_init_succeeds [OF example_tensors_fit(1), of Uniform]
    by (auto simp: example_config_def SLOTS_def)
  have e: "cfg_filtering_split example_config = ''''"
    by (simp add: example_config_def)
  from empty_filtering_split_is_train_split [OF e ok]
  have "filtering_split self = ''train'' \<and> requested = [''train_sp_to_o'']"
    by (simp add: example_config_def SLOTS_def index_name_def)
  with ok show ?thesis by blast
qed

section \<open>The resample loops, one round at a time\<close>

subsection \<open>Candidates and index arrays\<close>

lemma length_fresh: "length (fresh K g off cnt) = cnt"
  by (simp add: fresh_def)

lemma fresh_zero: "fresh K g off 0 = []"
  by (simp add: fresh_def)

lemma fresh_append: "fresh K g off (a + b) = fresh K g off a @ fresh K g (off + a) b"
proof -
  have "[0..<a + b] = [0..<a] @ [a..<a + b]"
    using upt_add_eq_append [of 0 a b] by simp
  moreover have "[a..<a + b] = map (\<lambda>j. j + a) [0..<b]"
    using map_add_upt [of a b] by (simp only: add.commute)
  ultimately have "[0..<a + b] = [0..<a] @ map (\<lambda>j. j + a) [0..<b]"
    by (simp only:)
  then show ?thesis
    by (simp add: fresh_def comp_def ac_simps)
qed

lemma fresh_shift: "fresh K (\<lambda>i. g (i + k)) off cnt = fresh K g (off + k) cnt"
  by (simp add: fresh_def ac_simps)

lemma fresh_range: "0 < K \<Longrightarrow> v \<in> set (fresh K g off cnt) \<Longrightarrow> 0 \<le> v \<and> v < int K"
  by (auto simp: fresh_def)

lemma accepted_Nil: "accepted positives [] = []"
  by (simp add: accepted_def)

lemma accepted_append:
  "accepted positives (xs @ ys) = accepted positives xs @ accepted positives ys"
  by (simp add: accepted_def)

lemma length_accepted: "length (accepted positives xs) \<le> length xs"
  by (simp add: accepted_def)

lemma set_accepted: "set (accepted positives xs) = set xs - set positives"
  by (auto simp: accepted_def)

lemma map_nth_filter_upt:
  "map ((!) xs) (filter (\<lambda>k. Q (xs ! k)) [0..<length xs]) = filter Q xs"
proof -
  have "map ((!) xs) (filter (\<lambda>k. Q (xs ! k)) [0..<length xs])
        = filter Q (map ((!) xs) [0..<length xs])"
    by (simp add: filter_map comp_def)
  then show ?thesis by (simp add: map_nth)
qed

lemma where_in_not_in: "map ((!) xs) (where_in xs positives True) = accepted positives xs"
  using map_nth_filter_upt [of xs "\<lambda>v. v \<notin> set positives"]
  by (simp add: where_in_def accepted_def)

lemma length_where_in_not_in:
  "length (where_in xs positives True) = length (accepted positives xs)"
  using arg_cong [OF where_in_not_in, of length] by simp

lemma where_in_not_in_Nil:
  "where_in xs positives True = [] \<longleftrightarrow> accepted positives xs = []"
  using length_where_in_not_in [of xs positives] by (metis length_0_conv)

lemma set_where_in: "set (where_in xs positives False) = {j. j < length xs \<and> xs ! j \<in> set positives}"
  by (auto simp: where_in_def)

lemma distinct_where_in: "distinct (where_in xs positives b)"
  by (simp add: where_in_def)

lemma where_in_Nil: "where_in [] positives b = []"
  by (simp add: where_in_def)

lemma where_in_collision_free:
  "where_in xs positives False = [] \<longleftrightarrow> set xs \<inter> set positives = {}"
proof -
  have "where_in xs positives False = [] \<longleftrightarrow> set (where_in xs positives False) = {}"
    by simp
  also have "\<dots> \<longleftrightarrow> (\<forall>j<length xs. xs ! j \<notin> set positives)"
    unfolding set_where_in by auto
  also have "\<dots> \<longleftrightarrow> (\<forall>x\<in>set xs. x \<notin> set positives)"
    by (simp add: all_set_conv_all_nth)
  also have "\<dots> \<longleftrightarrow> set xs \<inter> set positives = {}"
    by blast
  finally show ?thesis .
qed

lemma slice_take_drop: "slice xs a (a + n) = take n (drop a xs)"
  by (simp add: slice_def)

lemma index_put_Nil: "index_put row js [] = row" "index_put row [] vs = row"
  by (simp_all add: index_put_def)

lemma length_index_put: "length (index_put row js vs) = length row"
proof -
  have "length (fold (\<lambda>(j, v) r. r[j := v]) ps row) = length row" for ps
    by (induction ps arbitrary: row) (auto split: prod.splits)
  then show ?thesis by (simp add: index_put_def)
qed

lemma index_put_append:
  "length js1 = length vs1 \<Longrightarrow>
     index_put row (js1 @ js2) (vs1 @ vs2) = index_put (index_put row js1 vs1) js2 vs2"
  by (simp add: index_put_def)

lemma index_put_outside: "j \<notin> set js \<Longrightarrow> index_put row js vs ! j = row ! j"
proof (induction js arbitrary: row vs)
  case Nil
  then show ?case by (simp add: index_put_def)
next
  case (Cons a js)
  show ?case
  proof (cases vs)
    case Nil
    then show ?thesis by (simp add: index_put_def)
  next
    case (Cons v vs')
    have "index_put row (a # js) (v # vs') = index_put (row[a := v]) js vs'"
      by (simp add: index_put_def)
    with Cons.IH [of "row[a := v]" vs'] Cons.prems Cons show ?thesis by simp
  qed
qed

lemma index_put_inside:
  "distinct js \<Longrightarrow> k < length js \<Longrightarrow> k < length vs \<Longrightarrow> js ! k < length row \<Longrightarrow>
     index_put row js vs ! (js ! k) = vs ! k"
proof (induction js arbitrary: row vs k)
  case Nil
  then show ?case by simp
next
  case (Cons a js)
  then obtain v vs' where vs: "vs = v # vs'" by (cases vs) auto
  have step: "index_put row (a # js) (v # vs') = index_put (row[a := v]) js vs'"
    by (simp add: index_put_def)
  show ?case
  proof (cases k)
    case 0
    with Cons.prems have "a \<notin> set js" "a < length row" by auto
    then show ?thesis using 0 vs step by (simp add: index_put_outside)
  next
    case (Suc k')
    with Cons.prems vs have "distinct js" "k' < length js" "k' < length vs'"
      "js ! k' < length (row[a := v])" by auto
    from Cons.IH [OF this] show ?thesis using Suc vs step by simp
  qed
qed

lemma index_put_cases:
  "j < length row \<Longrightarrow> index_put row js vs ! j = row ! j \<or> index_put row js vs ! j \<in> set vs"
proof (induction js arbitrary: row vs)
  case Nil
  then show ?case by (simp add: index_put_def)
next
  case (Cons a js)
  show ?case
  proof (cases vs)
    case Nil
    then show ?thesis by (simp add: index_put_def)
  next
    case (Cons v vs')
    have step: "index_put row (a # js) (v # vs') = index_put (row[a := v]) js vs'"
      by (simp add: index_put_def)
    from Cons.IH [of "row[a := v]" vs'] Cons.prems
    have "index_put (row[a := v]) js vs' ! j = row[a := v] ! j
          \<or> index_put (row[a := v]) js vs' ! j \<in> set vs'" by simp
    then show ?thesis using Cons step Cons.prems
      by (cases "j = a") auto
  qed
qed

lemma write_loop_index_put:
  "ctr + length js \<le> length new_samples \<Longrightarrow>
     write_loop js new_samples ctr row = index_put row js (take (length js) (drop ctr new_samples))"
proof (induction js arbitrary: ctr row)
  case Nil
  then show ?case by (simp add: index_put_def)
next
  case (Cons j js)
  then have lt: "ctr < length new_samples" by simp
  have d: "drop ctr new_samples = new_samples ! ctr # drop (Suc ctr) new_samples"
    using lt by (simp add: Cons_nth_drop_Suc)
  from Cons.IH [of "Suc ctr" "row[j := new_samples ! ctr]"] Cons.prems
  show ?case by (simp add: d index_put_def)
qed

subsection \<open>One call of the strategy for a single row\<close>

lemma alias_draw_support:
  assumes "alias_support probs \<noteq> []"
  shows "alias_draw probs r \<in> set (alias_support probs)" and "alias_draw probs r < length probs"
proof -
  from assms show s: "alias_draw probs r \<in> set (alias_support probs)"
    by (simp add: alias_draw_def)
  then show "alias_draw probs r < length probs"
    by (simp add: alias_support_def)
qed

lemma draws_of_shift:
  "draws_of self slot (\<lambda>i. g (i + c)) = (\<lambda>i. draws_of self slot g (i + c))"
  by (simp add: draws_of_def split: strategy.splits)

lemma sampler_sample_one:
  assumes "0 < n" and "0 < sample_range self slot"
  shows "sampler_sample self (Suc 0) slot n g =
           Inr ([fresh (sample_range self slot) (draws_of self slot g) 0 (nat n)],
                \<lambda>i. g (i + nat n))"
proof (cases "strategy self")
  case Uniform
  with assms show ?thesis
    by (auto simp: sampler_sample_def sample_range_def KgeUniformSampler_sample_def
          torch_randint_def draw_matrix_def fresh_def draws_of_def)
next
  case Frequency
  with assms(2) have s: "alias_support (multinomials self slot) \<noteq> []"
    and K: "sample_range self slot = length (multinomials self slot)"
    by (auto simp: sample_range_def split: if_splits)
  have "alias_draw (multinomials self slot) r mod length (multinomials self slot)
          = alias_draw (multinomials self slot) r" for r
    using alias_draw_support(2) [OF s] by simp
  with Frequency assms(1) s K show ?thesis
    by (simp add: sampler_sample_def KgeFrequencySampler_sample_def fresh_def draws_of_def)
qed

lemma sampler_sample_one_error:
  assumes "0 < n" and "sample_range self slot = 0"
  shows "\<exists>e. sampler_sample self (Suc 0) slot n g = Inl e"
proof (cases "strategy self")
  case Uniform
  with assms show ?thesis
    by (auto simp: sampler_sample_def sample_range_def KgeUniformSampler_sample_def
          torch_randint_def)
next
  case Frequency
  with assms(2) have "alias_support (multinomials self slot) = []"
    by (auto simp: sample_range_def alias_support_def split: if_splits)
  with Frequency assms(1) show ?thesis
    by (simp add: sampler_sample_def KgeFrequencySampler_sample_def)
qed

lemma np_random_randint_pos:
  "0 < voc_size \<Longrightarrow>
     np_random_randint voc_size k g = Inr (fresh (nat voc_size) g 0 k, \<lambda>i. g (i + k))"
  by (simp add: np_random_randint_def draw_vector_def fresh_def)

lemma np_random_randint_error:
  "voc_size \<le> 0 \<Longrightarrow> \<exists>e. np_random_randint voc_size k g = Inl e"
  by (simp add: np_random_randint_def)

subsection \<open>One round of the resample loops\<close>


lemma resample_body_round:
  assumes "nf < num_new" and "0 < sample_range self slot"
  shows "(if num_new - nf = 0 then Some (Inr (row, g))
          else
            (case sampler_sample self 1 slot (int (num_new - nf)) g of
               Inl e \<Rightarrow> Some (Inl e)
             | Inr (m, g') \<Rightarrow>
                 (let new_samples = concat m;
                      tn_idx = where_in new_samples positives True
                  in
                    if tn_idx \<noteq> [] then
                      f self slot positives idx num_new
                        (index_put row
                           (slice idx nf (nf + length tn_idx))
                           (map ((!) new_samples) tn_idx))
                        (nf + length tn_idx) g'
                    else
                      f self slot positives idx num_new row nf g')))
         = f self slot positives idx num_new
             (index_put row
                (take (length (accepted positives (fresh (sample_range self slot) (draws_of self slot g) 0 (num_new - nf))))
                   (drop nf idx))
                (accepted positives (fresh (sample_range self slot) (draws_of self slot g) 0 (num_new - nf))))
             (nf + length (accepted positives (fresh (sample_range self slot) (draws_of self slot g) 0 (num_new - nf))))
             (\<lambda>i. g (i + (num_new - nf)))"
proof -
  let ?new = "fresh (sample_range self slot) (draws_of self slot g) 0 (num_new - nf)"
  have k: "0 < int (num_new - nf)" using assms(1) by simp
  have s: "sampler_sample self 1 slot (int (num_new - nf)) g =
             Inr ([?new], \<lambda>i. g (i + (num_new - nf)))"
    using sampler_sample_one [OF k assms(2), of g] by simp
  have ne: "num_new - nf \<noteq> 0" using assms(1) by simp
  show ?thesis
  proof (cases "accepted positives ?new = []")
    case True
    then have w: "where_in ?new positives True = []"
      by (simp add: where_in_not_in_Nil)
    show ?thesis
      unfolding s
      by (simp only: ne if_False sum.case prod.case Let_def concat.simps append_Nil2 w
            True list.size take_0 index_put_Nil add_0_right not_not if_False simp_thms)
  next
    case False
    then have w: "where_in ?new positives True \<noteq> []"
      by (simp add: where_in_not_in_Nil)
    show ?thesis
      unfolding s
      by (simp only: ne if_False sum.case prod.case Let_def concat.simps append_Nil2 w
            where_in_not_in length_where_in_not_in slice_take_drop not_False_eq_True if_True)
  qed
qed


lemma resample_loop_error:
  assumes "nf < num_new" and "sample_range self slot = 0"
  shows "\<exists>e. resample_loop self slot positives idx num_new row nf g = Some (Inl e)"
proof -
  have k: "0 < int (num_new - nf)" using assms(1) by simp
  from sampler_sample_one_error [OF k assms(2)] obtain e
    where e: "sampler_sample self 1 slot (int (num_new - nf)) g = Inl e" by auto
  have ne: "num_new - nf \<noteq> 0" using assms(1) by simp
  show ?thesis
    unfolding resample_loop.simps [of self slot positives idx num_new row nf g] e
    by (simp only: ne if_False sum.case) blast
qed


lemma numba_body_round:
  assumes "nf < num_new" and "0 < voc_size" and "num_new \<le> length idx"
  shows "(if num_new - nf = 0 then Some (Inr (row, g))
          else
            (case np_random_randint voc_size (num_new - nf) g of
               Inl e \<Rightarrow> Some (Inl e)
             | Inr (new_samples, g') \<Rightarrow>
                 (let idx' = where_in new_samples positives True
                  in
                    if idx' \<noteq> [] then
                      f voc_size positives idx num_new
                        (write_loop
                           (slice idx nf (nf + length idx'))
                           new_samples 0 row)
                        (nf + length idx') g'
                    else
                      f voc_size positives idx num_new row nf g')))
         = f voc_size positives idx num_new
             (index_put row
                (take (length (accepted positives (fresh (nat voc_size) g 0 (num_new - nf))))
                   (drop nf idx))
                (take (length (accepted positives (fresh (nat voc_size) g 0 (num_new - nf))))
                   (fresh (nat voc_size) g 0 (num_new - nf))))
             (nf + length (accepted positives (fresh (nat voc_size) g 0 (num_new - nf))))
             (\<lambda>i. g (i + (num_new - nf)))"
proof -
  let ?new = "fresh (nat voc_size) g 0 (num_new - nf)"
  let ?a = "length (accepted positives ?new)"
  have a: "?a \<le> num_new - nf"
    using length_accepted [of positives ?new] by (simp add: length_fresh)
  have len: "length (take ?a (drop nf idx)) = ?a"
    using a assms(1,3) by simp
  have "write_loop (take ?a (drop nf idx)) ?new 0 row
           = index_put row (take ?a (drop nf idx))
               (take (length (take ?a (drop nf idx))) (drop 0 ?new))"
    by (rule write_loop_index_put) (simp only: len, simp add: length_fresh a)
  then have w: "write_loop (take ?a (drop nf idx)) ?new 0 row
           = index_put row (take ?a (drop nf idx)) (take ?a ?new)"
    by (simp only: len drop_0)
  have ne: "num_new - nf \<noteq> 0" using assms(1) by simp
  note s = np_random_randint_pos [OF assms(2), of "num_new - nf" g]
  show ?thesis
  proof (cases "accepted positives ?new = []")
    case True
    then have wi: "where_in ?new positives True = []"
      by (simp add: where_in_not_in_Nil)
    show ?thesis
      unfolding s
      by (simp only: ne if_False sum.case prod.case Let_def wi
            True list.size take_0 index_put_Nil add_0_right not_not if_False simp_thms)
  next
    case False
    then have wi: "where_in ?new positives True \<noteq> []"
      by (simp add: where_in_not_in_Nil)
    show ?thesis
      unfolding s
      by (simp only: ne if_False sum.case prod.case Let_def wi
            length_where_in_not_in slice_take_drop w not_False_eq_True if_True)
  qed
qed


lemma numba_loop_error:
  assumes "nf < num_new" and "voc_size \<le> 0"
  shows "\<exists>e. numba_loop voc_size positives idx num_new row nf g = Some (Inl e)"
proof -
  from np_random_randint_error [OF assms(2)] obtain e
    where e: "np_random_randint voc_size (num_new - nf) g = Inl e" by blast
  have ne: "num_new - nf \<noteq> 0" using assms(1) by simp
  show ?thesis
    unfolding numba_loop.simps [of voc_size positives idx num_new row nf g] e
    by (simp only: ne if_False sum.case) blast
qed

subsection \<open>Induction over the rounds of a run that returns\<close>

lemma resample_loop_induct:
  assumes run: "resample_loop self slot positives idx num_new row nf g = Some y"
    and fin: "\<And>row nf g. num_new \<le> nf \<Longrightarrow> Q row nf g (Inr (row, g))"
    and err: "\<And>row nf g e. nf < num_new \<Longrightarrow> sample_range self slot = 0 \<Longrightarrow> Q row nf g (Inl e)"
    and round: "\<And>row nf g y. nf < num_new \<Longrightarrow> 0 < sample_range self slot \<Longrightarrow>
        Q (index_put row
             (take (length (accepted positives (fresh (sample_range self slot) (draws_of self slot g) 0 (num_new - nf))))
                (drop nf idx))
             (accepted positives (fresh (sample_range self slot) (draws_of self slot g) 0 (num_new - nf))))
          (nf + length (accepted positives (fresh (sample_range self slot) (draws_of self slot g) 0 (num_new - nf))))
          (\<lambda>i. g (i + (num_new - nf))) y \<Longrightarrow>
        Q row nf g y"
  shows "Q row nf g y"
proof -
  let ?P = "\<lambda>self' slot' positives' idx' num_new' row nf g y.
              self' = self \<and> slot' = slot \<and> positives' = positives \<and> idx' = idx
              \<and> num_new' = num_new \<longrightarrow> Q row nf g y"
  have "?P self slot positives idx num_new row nf g y"
  proof (rule resample_loop.raw_induct [where P = ?P, OF _ run], goal_cases)
    case (1 f self' slot' positives' idx' num_new' row nf g y)
    show ?case
    proof (intro impI)
      assume eq: "self' = self \<and> slot' = slot \<and> positives' = positives \<and> idx' = idx
              \<and> num_new' = num_new"
      then have e: "self' = self" "slot' = slot" "positives' = positives" "idx' = idx"
        "num_new' = num_new" by simp_all
      note body = 1(2) [unfolded e]
      consider (a) "num_new \<le> nf" | (b) "nf < num_new" "sample_range self slot = 0"
        | (c) "nf < num_new" "0 < sample_range self slot" by linarith
      then show "Q row nf g y"
      proof cases
        case a
        with body have "y = Inr (row, g)" by simp
        with fin [OF a] show ?thesis by simp
      next
        case b
        have k: "0 < int (num_new - nf)" using b(1) by simp
        from sampler_sample_one_error [OF k b(2)] obtain e'
          where "sampler_sample self 1 slot (int (num_new - nf)) g = Inl e'" by auto
        with body b(1) have "y = Inl e'" by simp
        with err [OF b] show ?thesis by simp
      next
        case c
        from body have "f self slot positives idx num_new
             (index_put row
                (take (length (accepted positives (fresh (sample_range self slot) (draws_of self slot g) 0 (num_new - nf))))
                   (drop nf idx))
                (accepted positives (fresh (sample_range self slot) (draws_of self slot g) 0 (num_new - nf))))
             (nf + length (accepted positives (fresh (sample_range self slot) (draws_of self slot g) 0 (num_new - nf))))
             (\<lambda>i. g (i + (num_new - nf))) = Some y"
          unfolding resample_body_round [OF c, of row g positives f idx] .
        from 1(1) [OF this] have "Q (index_put row
                (take (length (accepted positives (fresh (sample_range self slot) (draws_of self slot g) 0 (num_new - nf))))
                   (drop nf idx))
                (accepted positives (fresh (sample_range self slot) (draws_of self slot g) 0 (num_new - nf))))
             (nf + length (accepted positives (fresh (sample_range self slot) (draws_of self slot g) 0 (num_new - nf))))
             (\<lambda>i. g (i + (num_new - nf))) y" by simp
        from round [OF c this] show ?thesis .
      qed
    qed
  qed
  then show ?thesis by simp
qed

lemma numba_loop_induct:
  assumes run: "numba_loop voc_size positives idx num_new row nf g = Some y"
    and len: "num_new \<le> length idx"
    and fin: "\<And>row nf g. num_new \<le> nf \<Longrightarrow> Q row nf g (Inr (row, g))"
    and err: "\<And>row nf g e. nf < num_new \<Longrightarrow> voc_size \<le> 0 \<Longrightarrow> Q row nf g (Inl e)"
    and round: "\<And>row nf g y. nf < num_new \<Longrightarrow> 0 < voc_size \<Longrightarrow>
        Q (index_put row
             (take (length (accepted positives (fresh (nat voc_size) g 0 (num_new - nf))))
                (drop nf idx))
             (take (length (accepted positives (fresh (nat voc_size) g 0 (num_new - nf))))
                (fresh (nat voc_size) g 0 (num_new - nf))))
          (nf + length (accepted positives (fresh (nat voc_size) g 0 (num_new - nf))))
          (\<lambda>i. g (i + (num_new - nf))) y \<Longrightarrow>
        Q row nf g y"
  shows "Q row nf g y"
proof -
  let ?P = "\<lambda>voc_size' positives' idx' num_new' row nf g y.
              voc_size' = voc_size \<and> positives' = positives \<and> idx' = idx
              \<and> num_new' = num_new \<longrightarrow> Q row nf g y"
  have "?P voc_size positives idx num_new row nf g y"
  proof (rule numba_loop.raw_induct [where P = ?P, OF _ run], goal_cases)
    case (1 f voc_size' positives' idx' num_new' row nf g y)
    show ?case
    proof (intro impI)
      assume eq: "voc_size' = voc_size \<and> positives' = positives \<and> idx' = idx
              \<and> num_new' = num_new"
      then have e: "voc_size' = voc_size" "positives' = positives" "idx' = idx"
        "num_new' = num_new" by simp_all
      note body = 1(2) [unfolded e]
      consider (a) "num_new \<le> nf" | (b) "nf < num_new" "voc_size \<le> 0"
        | (c) "nf < num_new" "0 < voc_size" by linarith
      then show "Q row nf g y"
      proof cases
        case a
        with body have "y = Inr (row, g)" by simp
        with fin [OF a] show ?thesis by simp
      next
        case b
        from np_random_randint_error [OF b(2)] obtain e'
          where "np_random_randint voc_size (num_new - nf) g = Inl e'" by auto
        with body b(1) have "y = Inl e'" by simp
        with err [OF b] show ?thesis by simp
      next
        case c
        from body have "f voc_size positives idx num_new
             (index_put row
                (take (length (accepted positives (fresh (nat voc_size) g 0 (num_new - nf))))
                   (drop nf idx))
                (take (length (accepted positives (fresh (nat voc_size) g 0 (num_new - nf))))
                   (fresh (nat voc_size) g 0 (num_new - nf))))
             (nf + length (accepted positives (fresh (nat voc_size) g 0 (num_new - nf))))
             (\<lambda>i. g (i + (num_new - nf))) = Some y"
          unfolding numba_body_round [OF c len, of row g positives f] .
        from 1(1) [OF this] have "Q (index_put row
                (take (length (accepted positives (fresh (nat voc_size) g 0 (num_new - nf))))
                   (drop nf idx))
                (take (length (accepted positives (fresh (nat voc_size) g 0 (num_new - nf))))
                   (fresh (nat voc_size) g 0 (num_new - nf))))
             (nf + length (accepted positives (fresh (nat voc_size) g 0 (num_new - nf))))
             (\<lambda>i. g (i + (num_new - nf))) y" by simp
        from round [OF c this] show ?thesis .
      qed
    qed
  qed
  then show ?thesis by simp
qed

subsection \<open>What a returning run of a loop leaves in the row\<close>

lemma resample_loop_described:
  assumes run: "resample_loop self slot positives idx num_new row nf g = Some (Inr (row', g'))"
    and le: "nf \<le> num_new" and len: "num_new \<le> length idx"
  shows "\<exists>cnt. g' = (\<lambda>i. g (i + cnt))
           \<and> length (accepted positives (fresh (sample_range self slot) (draws_of self slot g) 0 cnt)) = num_new - nf
           \<and> row' = index_put row (drop nf idx)
                      (accepted positives (fresh (sample_range self slot) (draws_of self slot g) 0 cnt))"
proof -
  let ?K = "sample_range self slot"
  let ?Q = "\<lambda>row nf (g :: rng) (y :: error + int list \<times> rng).
       \<forall>row' g'. y = Inr (row', g') \<longrightarrow> nf \<le> num_new \<longrightarrow>
       (\<exists>cnt. g' = (\<lambda>i. g (i + cnt))
           \<and> length (accepted positives (fresh ?K (draws_of self slot g) 0 cnt)) = num_new - nf
           \<and> row' = index_put row (drop nf idx) (accepted positives (fresh ?K (draws_of self slot g) 0 cnt)))"
  have "?Q row nf (g :: rng) (Inr (row', g') :: error + int list \<times> rng)"
  proof (rule resample_loop_induct [where Q = ?Q, OF run], goal_cases)
    case (1 row nf g)
    show ?case
    proof (intro allI impI)
      fix row' g' assume "Inr (row, g) = (Inr (row', g') :: error + int list \<times> rng)" "nf \<le> num_new"
      then have "g' = (\<lambda>i. g (i + 0)) \<and> length (accepted positives (fresh ?K (draws_of self slot g) 0 0)) = num_new - nf
           \<and> row' = index_put row (drop nf idx) (accepted positives (fresh ?K (draws_of self slot g) 0 0))"
        using 1 by (simp add: fresh_zero accepted_Nil index_put_Nil)
      then show "\<exists>cnt. g' = (\<lambda>i. g (i + cnt))
           \<and> length (accepted positives (fresh ?K (draws_of self slot g) 0 cnt)) = num_new - nf
           \<and> row' = index_put row (drop nf idx) (accepted positives (fresh ?K (draws_of self slot g) 0 cnt))"
        by blast
    qed
  next
    case (2 row nf g e)
    show ?case by simp
  next
    case (3 row nf g y)
    let ?k = "num_new - nf"
    let ?acc = "accepted positives (fresh ?K (draws_of self slot g) 0 ?k)"
    let ?a = "length ?acc"
    have a: "?a \<le> ?k"
      using length_accepted [of positives "fresh ?K (draws_of self slot g) 0 ?k"] by (simp add: length_fresh)
    show ?case
    proof (intro allI impI)
      fix row' g' assume y: "y = Inr (row', g')" and "nf \<le> num_new"
      from 3(3) y a 3(1) obtain cnt' where
        g': "g' = (\<lambda>i. g (i + ?k + cnt'))"
        and l0: "length (accepted positives
                   (fresh ?K (draws_of self slot (\<lambda>i. g (i + ?k))) 0 cnt')) = num_new - (nf + ?a)"
        and r0: "row' = index_put (index_put row (take ?a (drop nf idx)) ?acc) (drop (nf + ?a) idx)
                   (accepted positives (fresh ?K (draws_of self slot (\<lambda>i. g (i + ?k))) 0 cnt'))"
        by (auto simp: ac_simps)
      note l = l0 [unfolded draws_of_shift] and r = r0 [unfolded draws_of_shift]
      let ?acc' = "accepted positives (fresh ?K (\<lambda>i. draws_of self slot g (i + ?k)) 0 cnt')"
      have f: "fresh ?K (draws_of self slot g) 0 (?k + cnt') = fresh ?K (draws_of self slot g) 0 ?k @ fresh ?K (\<lambda>i. draws_of self slot g (i + ?k)) 0 cnt'"
        by (simp add: fresh_append fresh_shift)
      have acc: "accepted positives (fresh ?K (draws_of self slot g) 0 (?k + cnt')) = ?acc @ ?acc'"
        by (simp only: f accepted_append)
      have lt: "length (take ?a (drop nf idx)) = ?a"
        using a 3(1) len by simp
      have d: "drop nf idx = take ?a (drop nf idx) @ drop (nf + ?a) idx"
        by (metis append_take_drop_id drop_drop add.commute)
      have "index_put row (drop nf idx) (?acc @ ?acc')
            = index_put (index_put row (take ?a (drop nf idx)) ?acc) (drop (nf + ?a) idx) ?acc'"
        by (subst d) (rule index_put_append [OF lt])
      with r have r': "row' = index_put row (drop nf idx) (accepted positives (fresh ?K (draws_of self slot g) 0 (?k + cnt')))"
        by (simp only: acc)
      have l': "length (accepted positives (fresh ?K (draws_of self slot g) 0 (?k + cnt'))) = num_new - nf"
        using l a by (simp only: acc length_append)
      have g'': "g' = (\<lambda>i. g (i + (?k + cnt')))"
        using g' by (simp add: ac_simps)
      from g'' l' r' show "\<exists>cnt. g' = (\<lambda>i. g (i + cnt))
           \<and> length (accepted positives (fresh ?K (draws_of self slot g) 0 cnt)) = num_new - nf
           \<and> row' = index_put row (drop nf idx) (accepted positives (fresh ?K (draws_of self slot g) 0 cnt))"
        by blast
    qed
  qed
  with le show ?thesis by simp
qed

lemma numba_loop_written:
  assumes run: "numba_loop voc_size positives idx num_new row nf g = Some (Inr (row', g'))"
    and le: "nf \<le> num_new" and len: "num_new \<le> length idx"
  shows "(\<exists>cnt. g' = (\<lambda>i. g (i + cnt))) \<and> length row' = length row
           \<and> (\<forall>j. j \<notin> set (drop nf idx) \<longrightarrow> row' ! j = row ! j)
           \<and> (\<forall>j<length row. row' ! j = row ! j \<or> (0 \<le> row' ! j \<and> row' ! j < voc_size))"
proof -
  let ?Q = "\<lambda>row nf (g :: rng) (y :: error + int list \<times> rng).
       \<forall>row' g'. y = Inr (row', g') \<longrightarrow>
       (\<exists>cnt. g' = (\<lambda>i. g (i + cnt))) \<and> length row' = length row
           \<and> (\<forall>j. j \<notin> set (drop nf idx) \<longrightarrow> row' ! j = row ! j)
           \<and> (\<forall>j<length row. row' ! j = row ! j \<or> (0 \<le> row' ! j \<and> row' ! j < voc_size))"
  have "?Q row nf (g :: rng) (Inr (row', g') :: error + int list \<times> rng)"
  proof (rule numba_loop_induct [where Q = ?Q, OF run len], goal_cases)
    case (1 row nf g)
    have "g = (\<lambda>i. g (i + 0))" by simp
    then have "\<exists>cnt. g = (\<lambda>i. g (i + cnt))" by blast
    then show ?case by simp
  next
    case (2 row nf g e)
    show ?case by simp
  next
    case (3 row nf g y)
    let ?k = "num_new - nf"
    let ?new = "fresh (nat voc_size) g 0 ?k"
    let ?a = "length (accepted positives ?new)"
    let ?row1 = "index_put row (take ?a (drop nf idx)) (take ?a ?new)"
    show ?case
    proof (intro allI impI)
      fix row' g' assume y: "y = Inr (row', g')"
      from 3(3) y obtain cnt' where
        g': "g' = (\<lambda>i. g (i + ?k + cnt'))"
        and l: "length row' = length ?row1"
        and o: "\<forall>j. j \<notin> set (drop (nf + ?a) idx) \<longrightarrow> row' ! j = ?row1 ! j"
        and v: "\<forall>j<length ?row1. row' ! j = ?row1 ! j \<or> (0 \<le> row' ! j \<and> row' ! j < voc_size)"
        by (auto simp: ac_simps)
      have g'': "\<exists>cnt. g' = (\<lambda>i. g (i + cnt))"
        using g' by (metis (no_types, lifting) add.assoc)
      have l': "length row' = length row" using l by (simp add: length_index_put)
      have sub1: "set (take ?a (drop nf idx)) \<subseteq> set (drop nf idx)"
        by (rule set_take_subset)
      have sub2: "set (drop (nf + ?a) idx) \<subseteq> set (drop nf idx)"
        by (metis set_drop_subset_set_drop le_add1)
      have o': "\<forall>j. j \<notin> set (drop nf idx) \<longrightarrow> row' ! j = row ! j"
      proof (intro allI impI)
        fix j assume j: "j \<notin> set (drop nf idx)"
        with sub1 sub2 have "j \<notin> set (take ?a (drop nf idx))" "j \<notin> set (drop (nf + ?a) idx)"
          by auto
        with o show "row' ! j = row ! j" by (simp add: index_put_outside)
      qed
      have rng: "\<forall>x\<in>set (take ?a ?new). 0 \<le> x \<and> x < voc_size"
      proof
        fix x assume "x \<in> set (take ?a ?new)"
        then have "x \<in> set ?new" by (rule in_set_takeD)
        from fresh_range [OF _ this] 3(2) show "0 \<le> x \<and> x < voc_size" by simp
      qed
      have v': "\<forall>j<length row. row' ! j = row ! j \<or> (0 \<le> row' ! j \<and> row' ! j < voc_size)"
      proof (intro allI impI)
        fix j assume j: "j < length row"
        from index_put_cases [OF j, of "take ?a (drop nf idx)" "take ?a ?new"] rng
        have "?row1 ! j = row ! j \<or> (0 \<le> ?row1 ! j \<and> ?row1 ! j < voc_size)" by auto
        moreover from v j have "row' ! j = ?row1 ! j \<or> (0 \<le> row' ! j \<and> row' ! j < voc_size)"
          by (simp add: length_index_put)
        ultimately show "row' ! j = row ! j \<or> (0 \<le> row' ! j \<and> row' ! j < voc_size)"
          by auto
      qed
      from g'' l' o' v' show "(\<exists>cnt. g' = (\<lambda>i. g (i + cnt))) \<and> length row' = length row
           \<and> (\<forall>j. j \<notin> set (drop nf idx) \<longrightarrow> row' ! j = row ! j)
           \<and> (\<forall>j<length row. row' ! j = row ! j \<or> (0 \<le> row' ! j \<and> row' ! j < voc_size))"
        by blast
    qed
  qed
  then show ?thesis by simp
qed

subsection \<open>Rows after the standard filter\<close>

lemma resample_loop_range:
  assumes "resample_loop self slot positives idx num_new row nf g = Some (Inr (row', g'))"
    and "nf < num_new"
  shows "0 < sample_range self slot"
proof (rule ccontr)
  assume "\<not> 0 < sample_range self slot"
  then have "sample_range self slot = 0" by simp
  from resample_loop_error [OF assms(2) this, of positives idx row g] assms(1)
  show False by auto
qed

lemma resampled_shift:
  "resampled K positives (\<lambda>i. g (i + c)) row row' \<Longrightarrow> resampled K positives g row row'"
  unfolding resampled_def fresh_shift by blast

lemma resampled_length: "resampled K positives g row row' \<Longrightarrow> length row' = length row"
  by (auto simp: resampled_def length_index_put)

lemma resampled_frame:
  assumes "resampled K positives g row row'" and "j < length row" and "row ! j \<notin> set positives"
  shows "row' ! j = row ! j"
proof -
  from assms(2,3) have "j \<notin> set (where_in row positives False)"
    by (simp add: set_where_in)
  with assms(1) show ?thesis
    by (auto simp: resampled_def index_put_outside)
qed

lemma resampled_values:
  assumes "resampled K positives g row row'" and "j < length row"
  shows "row' ! j = row ! j \<and> row ! j \<notin> set positives
         \<or> row' ! j \<notin> set positives \<and> row ! j \<in> set positives
            \<and> (\<exists>n. row' ! j = int (g n mod K))"
proof -
  let ?idx = "where_in row positives False"
  from assms(1) obtain off cnt where
    l: "length (accepted positives (fresh K g off cnt)) = length ?idx"
    and r: "row' = index_put row ?idx (accepted positives (fresh K g off cnt))"
    by (auto simp: resampled_def)
  let ?acc = "accepted positives (fresh K g off cnt)"
  show ?thesis
  proof (cases "row ! j \<in> set positives")
    case False
    with resampled_frame [OF assms(1,2)] show ?thesis by simp
  next
    case True
    with assms(2) have "j \<in> set ?idx" by (simp add: set_where_in)
    then obtain k where k: "k < length ?idx" "?idx ! k = j"
      by (auto simp: in_set_conv_nth)
    have "index_put row ?idx ?acc ! (?idx ! k) = ?acc ! k"
      by (rule index_put_inside) (use k l assms(2) in \<open>simp_all add: distinct_where_in\<close>)
    with r k have e: "row' ! j = ?acc ! k" by simp
    have "?acc ! k \<in> set ?acc" using k l by simp
    then have "?acc ! k \<in> set (fresh K g off cnt)" "?acc ! k \<notin> set positives"
      by (simp_all add: set_accepted)
    then have "(\<exists>n. ?acc ! k = int (g n mod K))" "?acc ! k \<notin> set positives"
      by (auto simp: fresh_def)
    with e True show ?thesis by simp
  qed
qed

lemma resampled_in_order:
  assumes "resampled K positives g row row'"
  shows "\<exists>off cnt.
           length (accepted positives (fresh K g off cnt)) = length (where_in row positives False)
           \<and> (\<forall>k<length (where_in row positives False).
                 row' ! (where_in row positives False ! k)
                   = accepted positives (fresh K g off cnt) ! k)"
proof -
  let ?idx = "where_in row positives False"
  from assms(1) obtain off cnt where
    l: "length (accepted positives (fresh K g off cnt)) = length ?idx"
    and r: "row' = index_put row ?idx (accepted positives (fresh K g off cnt))"
    by (auto simp: resampled_def)
  let ?acc = "accepted positives (fresh K g off cnt)"
  have "\<forall>k<length ?idx. row' ! (?idx ! k) = ?acc ! k"
  proof (intro allI impI)
    fix k assume k: "k < length ?idx"
    then have "?idx ! k \<in> set ?idx" by simp
    then have "?idx ! k < length row" by (simp add: set_where_in)
    with k l have "index_put row ?idx ?acc ! (?idx ! k) = ?acc ! k"
      by (intro index_put_inside) (simp_all add: distinct_where_in)
    with r show "row' ! (?idx ! k) = ?acc ! k" by simp
  qed
  with l show ?thesis by blast
qed

lemma resampled_no_collision:
  assumes "resampled K positives g row row'"
  shows "set row' \<inter> set positives = {}"
proof -
  have "\<forall>j<length row'. row' ! j \<notin> set positives"
    using resampled_values [OF assms] resampled_length [OF assms] by metis
  then have "\<forall>x\<in>set row'. x \<notin> set positives"
    by (simp add: all_set_conv_all_nth)
  then show ?thesis by blast
qed

lemma resample_loop_resampled:
  assumes "resample_loop self slot positives (where_in row positives False)
             (length (where_in row positives False)) row 0 g = Some (Inr (row', g'))"
  shows "resampled (sample_range self slot) positives (draws_of self slot g) row row'"
    and "\<exists>cnt. g' = (\<lambda>i. g (i + cnt))"
    and "where_in row positives False \<noteq> [] \<Longrightarrow> 0 < sample_range self slot"
proof -
  from resample_loop_described [OF assms] obtain cnt where
    c: "g' = (\<lambda>i. g (i + cnt))"
      "length (accepted positives (fresh (sample_range self slot) (draws_of self slot g) 0 cnt))
         = length (where_in row positives False)"
      "row' = index_put row (where_in row positives False)
                (accepted positives (fresh (sample_range self slot) (draws_of self slot g) 0 cnt))"
    by auto
  from c(2,3) show "resampled (sample_range self slot) positives (draws_of self slot g) row row'"
    unfolding resampled_def by blast
  from c(1) show "\<exists>cnt. g' = (\<lambda>i. g (i + cnt))" by blast
  show "0 < sample_range self slot" if "where_in row positives False \<noteq> []"
    using resample_loop_range [OF assms] that by simp
qed

lemma filter_rows_resampled:
  "filter_rows self slot idxf ts i ns g = Some (Inr (m, g')) \<Longrightarrow>
     length m = length ns \<and> (ts \<noteq> [] \<longrightarrow> i + length ts \<le> length ns)
     \<and> (\<exists>c. g' = (\<lambda>n. g (n + c)))
     \<and> (\<forall>r. r < i \<or> i + length ts \<le> r \<longrightarrow> m ! r = ns ! r)
     \<and> (\<forall>k<length ts.
           resampled (sample_range self slot) (idxf (pair_of slot (ts ! k))) (draws_of self slot g)
             (ns ! (i + k)) (m ! (i + k))
           \<and> (set (ns ! (i + k)) \<inter> set (idxf (pair_of slot (ts ! k))) \<noteq> {}
                \<longrightarrow> 0 < sample_range self slot))"
proof (induction ts arbitrary: i ns g)
  case Nil
  have "g = (\<lambda>n. g (n + 0))" by simp
  then have "\<exists>c. g = (\<lambda>n. g (n + c))" by blast
  with Nil show ?case by simp
next
  case (Cons t ts)
  let ?P = "idxf (pair_of slot t)"
  let ?idx = "where_in (ns ! i) ?P False"
  from Cons.prems have i: "i < length ns"
    by (auto split: if_splits)
  from Cons.prems i obtain row1 g1 where
    loop: "resample_loop self slot ?P ?idx (length ?idx) (ns ! i) 0 g = Some (Inr (row1, g1))"
    and rest: "filter_rows self slot idxf ts (Suc i) (ns[i := row1]) g1 = Some (Inr (m, g'))"
    by (auto simp: Let_def split: option.splits sum.splits)
  note row = resample_loop_resampled [OF loop]
  from row(2) obtain c1 where g1: "g1 = (\<lambda>n. g (n + c1))" by blast
  from Cons.IH [OF rest] have
    len: "length m = length ns" and bound: "ts \<noteq> [] \<longrightarrow> Suc i + length ts \<le> length ns"
    and sh: "\<exists>c. g' = (\<lambda>n. g1 (n + c))"
    and out: "\<forall>r. r < Suc i \<or> Suc i + length ts \<le> r \<longrightarrow> m ! r = ns[i := row1] ! r"
    and rows: "\<forall>k<length ts.
           resampled (sample_range self slot) (idxf (pair_of slot (ts ! k))) (draws_of self slot g1)
             (ns[i := row1] ! (Suc i + k)) (m ! (Suc i + k))
           \<and> (set (ns[i := row1] ! (Suc i + k)) \<inter> set (idxf (pair_of slot (ts ! k))) \<noteq> {}
                \<longrightarrow> 0 < sample_range self slot)"
    by simp_all
  from sh obtain c2 where "g' = (\<lambda>n. g1 (n + c2))" by blast
  with g1 have "g' = (\<lambda>n. g (n + (c2 + c1)))" by (simp add: ac_simps)
  then have sh': "\<exists>c. g' = (\<lambda>n. g (n + c))" by blast
  from out i have mi: "m ! i = row1" by simp
  have out': "\<forall>r. r < i \<or> i + length (t # ts) \<le> r \<longrightarrow> m ! r = ns ! r"
    using out by auto
  have rows': "\<forall>k<length (t # ts).
           resampled (sample_range self slot) (idxf (pair_of slot ((t # ts) ! k))) (draws_of self slot g)
             (ns ! (i + k)) (m ! (i + k))
           \<and> (set (ns ! (i + k)) \<inter> set (idxf (pair_of slot ((t # ts) ! k))) \<noteq> {}
                \<longrightarrow> 0 < sample_range self slot)"
  proof (intro allI impI)
    fix k assume k: "k < length (t # ts)"
    show "resampled (sample_range self slot) (idxf (pair_of slot ((t # ts) ! k))) (draws_of self slot g)
             (ns ! (i + k)) (m ! (i + k))
           \<and> (set (ns ! (i + k)) \<inter> set (idxf (pair_of slot ((t # ts) ! k))) \<noteq> {}
                \<longrightarrow> 0 < sample_range self slot)"
    proof (cases k)
      case 0
      from row(3) have "set (ns ! i) \<inter> set ?P \<noteq> {} \<longrightarrow> 0 < sample_range self slot"
        by (simp add: where_in_collision_free)
      with 0 row(1) mi show ?thesis by simp
    next
      case (Suc k')
      with k have k': "k' < length ts" by simp
      from rows k' have
        "resampled (sample_range self slot) (idxf (pair_of slot (ts ! k'))) (draws_of self slot g1)
             (ns[i := row1] ! (Suc i + k')) (m ! (Suc i + k'))
           \<and> (set (ns[i := row1] ! (Suc i + k')) \<inter> set (idxf (pair_of slot (ts ! k'))) \<noteq> {}
                \<longrightarrow> 0 < sample_range self slot)" by blast
      moreover have "ns[i := row1] ! (Suc i + k') = ns ! (Suc i + k')" by simp
      ultimately show ?thesis
        using Suc g1 resampled_shift [of "sample_range self slot" _ "draws_of self slot g" c1]
        by (auto simp: draws_of_shift)
    qed
  qed
  from bound i have bound': "i + length (t # ts) \<le> length ns"
    by (cases ts) simp_all
  from len bound' sh' out' rows' show ?case by simp
qed

subsection \<open>Rows after the fast filter\<close>

lemma resampled_rewritten:
  assumes "resampled K positives g row row'"
    and "set row \<inter> set positives \<noteq> {} \<longrightarrow> 0 < K"
  shows "rewritten (int K) positives row row'"
proof -
  have "(row ! j \<notin> set positives \<longrightarrow> row' ! j = row ! j)
          \<and> (row' ! j = row ! j \<or> (0 \<le> row' ! j \<and> row' ! j < int K))"
    if j: "j < length row" for j
  proof -
    have "row ! j \<in> set positives \<Longrightarrow> 0 < K"
    proof -
      assume a: "row ! j \<in> set positives"
      from j have "row ! j \<in> set row" by simp
      with a have "set row \<inter> set positives \<noteq> {}" by blast
      with assms(2) show "0 < K" by simp
    qed
    with resampled_values [OF assms(1) j] show ?thesis by auto
  qed
  with resampled_length [OF assms(1)] show ?thesis
    by (simp add: rewritten_def)
qed

lemma rewritten_refl: "rewritten K positives row row"
  by (simp add: rewritten_def)

lemma numba_loop_rewritten:
  assumes "numba_loop voc_size positives (where_in row positives False)
             (length (where_in row positives False)) row 0 g = Some (Inr (row', g'))"
  shows "rewritten voc_size positives row row'"
    and "\<exists>cnt. g' = (\<lambda>i. g (i + cnt))"
proof -
  from numba_loop_written [OF assms] have
    g: "\<exists>cnt. g' = (\<lambda>i. g (i + cnt))" and l: "length row' = length row"
    and o: "\<forall>j. j \<notin> set (where_in row positives False) \<longrightarrow> row' ! j = row ! j"
    and v: "\<forall>j<length row. row' ! j = row ! j \<or> (0 \<le> row' ! j \<and> row' ! j < voc_size)"
    by simp_all
  from g show "\<exists>cnt. g' = (\<lambda>i. g (i + cnt))" .
  from o have "\<forall>j<length row. row ! j \<notin> set positives \<longrightarrow> row' ! j = row ! j"
    by (simp add: set_where_in)
  with l v show "rewritten voc_size positives row row'"
    by (simp add: rewritten_def)
qed

lemma fill_positives_index_lookup:
  "fill_positives_index idxf pairs p = (if p \<in> set pairs then Some (idxf p) else None)"
proof -
  have "fold (\<lambda>pair d. d(pair \<mapsto> idxf pair)) pairs d0 p
          = (if p \<in> set pairs then Some (idxf p) else d0 p)" for d0
    by (induction pairs arbitrary: d0) auto
  then show ?thesis by (simp add: fill_positives_index_def)
qed

lemma numba_rows_rewritten:
  "numba_rows d voc_size ps i ns g = Some (Inr (m, g')) \<Longrightarrow>
   \<forall>p\<in>set ps. d p = Some (idxf p) \<Longrightarrow>
   i + length ps \<le> length ns \<Longrightarrow>
     length m = length ns
     \<and> (\<exists>c. g' = (\<lambda>n. g (n + c)))
     \<and> (\<forall>r. r < i \<or> i + length ps \<le> r \<longrightarrow> m ! r = ns ! r)
     \<and> (\<forall>k<length ps. rewritten voc_size (idxf (ps ! k)) (ns ! (i + k)) (m ! (i + k)))"
proof (induction ps arbitrary: i ns g)
  case Nil
  have "g = (\<lambda>n. g (n + 0))" by simp
  then have "\<exists>c. g = (\<lambda>n. g (n + c))" by blast
  with Nil show ?case by simp
next
  case (Cons p ps)
  let ?P = "idxf p"
  let ?idx = "where_in (ns ! i) ?P False"
  from Cons.prems(2) have dp: "d p = Some ?P" and dps: "\<forall>p\<in>set ps. d p = Some (idxf p)"
    by simp_all
  from Cons.prems(3) have i: "i < length ns" by simp
  from Cons.prems(1) dp obtain row1 g1 where
    loop: "numba_loop voc_size ?P ?idx (length ?idx) (ns ! i) 0 g = Some (Inr (row1, g1))"
    and rest: "numba_rows d voc_size ps (Suc i) (ns[i := row1]) g1 = Some (Inr (m, g'))"
    by (auto simp: Let_def split: option.splits sum.splits)
  note row = numba_loop_rewritten [OF loop]
  from row(2) obtain c1 where g1: "g1 = (\<lambda>n. g (n + c1))" by blast
  from Cons.prems(3) have bound: "Suc i + length ps \<le> length (ns[i := row1])" by simp
  from Cons.IH [OF rest dps bound] have
    len: "length m = length ns"
    and sh: "\<exists>c. g' = (\<lambda>n. g1 (n + c))"
    and out: "\<forall>r. r < Suc i \<or> Suc i + length ps \<le> r \<longrightarrow> m ! r = ns[i := row1] ! r"
    and rows: "\<forall>k<length ps.
           rewritten voc_size (idxf (ps ! k)) (ns[i := row1] ! (Suc i + k)) (m ! (Suc i + k))"
    by simp_all
  from sh obtain c2 where "g' = (\<lambda>n. g1 (n + c2))" by blast
  with g1 have "g' = (\<lambda>n. g (n + (c2 + c1)))" by (simp add: ac_simps)
  then have sh': "\<exists>c. g' = (\<lambda>n. g (n + c))" by blast
  from out i have mi: "m ! i = row1" by simp
  have out': "\<forall>r. r < i \<or> i + length (p # ps) \<le> r \<longrightarrow> m ! r = ns ! r"
    using out by auto
  have rows': "\<forall>k<length (p # ps).
           rewritten voc_size (idxf ((p # ps) ! k)) (ns ! (i + k)) (m ! (i + k))"
  proof (intro allI impI)
    fix k assume k: "k < length (p # ps)"
    show "rewritten voc_size (idxf ((p # ps) ! k)) (ns ! (i + k)) (m ! (i + k))"
    proof (cases k)
      case 0
      with row(1) mi show ?thesis by simp
    next
      case (Suc k')
      with k have k': "k' < length ps" by simp
      from rows k' have
        "rewritten voc_size (idxf (ps ! k')) (ns[i := row1] ! (Suc i + k')) (m ! (Suc i + k'))"
        by blast
      moreover have "ns[i := row1] ! (Suc i + k') = ns ! (Suc i + k')" by simp
      ultimately show ?thesis using Suc by simp
    qed
  qed
  from len sh' out' rows' show ?case by simp
qed

subsection \<open>The two filter methods\<close>

lemma standard_filter_rows:
  assumes "KgeSampler_filter_and_resample self ns slot ts g = Some (Inr (m, g'))"
  shows "length m = length ns" and "ts \<noteq> [] \<longrightarrow> length ts \<le> length ns"
    and "\<exists>c. g' = (\<lambda>n. g (n + c))"
    and "\<forall>r. length ts \<le> r \<longrightarrow> m ! r = ns ! r"
    and "\<forall>k<length ts.
           resampled (sample_range self slot) (positives_of self slot (ts ! k))
             (draws_of self slot g) (ns ! k) (m ! k)
           \<and> (set (ns ! k) \<inter> set (positives_of self slot (ts ! k)) \<noteq> {}
                \<longrightarrow> 0 < sample_range self slot)"
  using filter_rows_resampled [OF assms [unfolded KgeSampler_filter_and_resample_def]]
  by (simp_all add: positives_of_def)

lemma fast_filter_numba_rows:
  "KgeUniformSampler_filter_and_resample_fast self ns slot ts g =
     (if ts = [] then Some (Inl TypeError)
      else
        numba_rows
          (fill_positives_index
             (index (sampler_dataset self) (index_name (filtering_split self) slot))
             (map (pair_of slot) ts))
          (vocabulary_size self slot) (map (pair_of slot) ts) 0 ns g)"
  by (simp add: KgeUniformSampler_filter_and_resample_fast_def Let_def
        KgeUniformSampler_filter_and_resample_numba_def)

lemma fast_filter_rows:
  assumes "KgeUniformSampler_filter_and_resample_fast self ns slot ts g = Some (Inr (m, g'))"
    and "length ts \<le> length ns"
  shows "length m = length ns" and "ts \<noteq> []"
    and "\<exists>c. g' = (\<lambda>n. g (n + c))"
    and "\<forall>r. length ts \<le> r \<longrightarrow> m ! r = ns ! r"
    and "\<forall>k<length ts.
           rewritten (vocabulary_size self slot) (positives_of self slot (ts ! k)) (ns ! k) (m ! k)"
proof -
  let ?idxf = "index (sampler_dataset self) (index_name (filtering_split self) slot)"
  let ?ps = "map (pair_of slot) ts"
  from assms(1) show ne: "ts \<noteq> []"
    by (auto simp: fast_filter_numba_rows split: if_splits)
  with assms(1) have run: "numba_rows (fill_positives_index ?idxf ?ps) (vocabulary_size self slot)
      ?ps 0 ns g = Some (Inr (m, g'))"
    by (simp add: fast_filter_numba_rows)
  have d: "\<forall>p\<in>set ?ps. fill_positives_index ?idxf ?ps p = Some (?idxf p)"
    by (simp add: fill_positives_index_lookup)
  from assms(2) have b: "0 + length ?ps \<le> length ns" by simp
  note r = numba_rows_rewritten [OF run d b]
  from r show "length m = length ns" by simp
  from r show "\<exists>c. g' = (\<lambda>n. g (n + c))" by simp
  from r show "\<forall>r. length ts \<le> r \<longrightarrow> m ! r = ns ! r" by simp
  from r show "\<forall>k<length ts.
           rewritten (vocabulary_size self slot) (positives_of self slot (ts ! k)) (ns ! k) (m ! k)"
    by (simp add: positives_of_def)
qed

subsection \<open>Termination of the loops\<close>





lemma fair_draws_identity:
  assumes "v < K" and "int v \<notin> set positives"
  shows "fair_draws K positives (\<lambda>n. n)"
  unfolding fair_draws_def
proof (intro allI)
  fix m
  have "m \<le> m * K + v" using assms(1) by (cases K) simp_all
  moreover have "(m * K + v) mod K = v" using assms(1) by simp
  ultimately show "\<exists>n\<ge>m. int (n mod K) \<notin> set positives"
    using assms(2) by metis
qed

lemma fewer_positives_than_values:
  assumes "card (set positives) < K"
  shows "\<exists>v<K. int v \<notin> set positives"
proof (rule ccontr)
  assume "\<not> (\<exists>v<K. int v \<notin> set positives)"
  then have "int ` {0..<K} \<subseteq> set positives" by auto
  then have "card (int ` {0..<K}) \<le> card (set positives)"
    by (intro card_mono) simp_all
  moreover have "card (int ` {0..<K}) = K"
    by (simp add: card_image)
  ultimately show False using assms by simp
qed




subsection \<open>Runs that never return\<close>





lemma covering_positives_stuck:
  assumes "0 < K" and "\<forall>v<K. int v \<in> set positives"
  shows "stuck_draws K positives g"
  using assms by (simp add: stuck_draws_def)

section \<open>The public operation\<close>

subsection \<open>Raw draws\<close>

lemma draw_matrix_shape:
  "length (fst (draw_matrix K b n g)) = b"
  "row \<in> set (fst (draw_matrix K b n g)) \<Longrightarrow> length row = n"
  "snd (draw_matrix K b n g) = (\<lambda>k. g (k + b * n))"
  by (auto simp: draw_matrix_def)

lemma draw_matrix_range:
  "0 < K \<Longrightarrow> row \<in> set (fst (draw_matrix K b n g)) \<Longrightarrow> v \<in> set row \<Longrightarrow> 0 \<le> v \<and> v < int K"
  by (auto simp: draw_matrix_def)

lemma sampler_sample_Inr:
  assumes "sampler_sample self b slot n g = Inr (m, g')"
  shows "0 \<le> n" and "length m = b" and "\<forall>row\<in>set m. length row = nat n"
    and "\<forall>row\<in>set m. \<forall>v\<in>set row. 0 \<le> v \<and> v < int (sample_range self slot)"
    and "g' = (\<lambda>k. g (k + b * nat n))"
proof -
  have "0 \<le> n \<and> length m = b \<and> (\<forall>row\<in>set m. length row = nat n)
        \<and> (\<forall>row\<in>set m. \<forall>v\<in>set row. 0 \<le> v \<and> v < int (sample_range self slot))
        \<and> g' = (\<lambda>k. g (k + b * nat n))"
  proof (cases "strategy self")
    case Uniform
    with assms have n: "0 \<le> n" and v: "0 < vocabulary_size self slot"
      and d: "draw_matrix (nat (vocabulary_size self slot)) b (nat n) g = (m, g')"
      by (auto simp: sampler_sample_def KgeUniformSampler_sample_def torch_randint_def
            split: if_splits)
    have K: "sample_range self slot = nat (vocabulary_size self slot)"
      using Uniform by (simp add: sample_range_def)
    from v have pos: "0 < nat (vocabulary_size self slot)" by simp
    from d have m: "m = fst (draw_matrix (nat (vocabulary_size self slot)) b (nat n) g)"
      and g': "g' = snd (draw_matrix (nat (vocabulary_size self slot)) b (nat n) g)"
      by simp_all
    show ?thesis
      using n draw_matrix_range [OF pos, of _ b "nat n" g]
      unfolding K m g' by (simp add: draw_matrix_shape)
  next
    case Frequency
    show ?thesis
    proof (cases "n = 0")
      case True
      with assms Frequency show ?thesis
        by (auto simp: sampler_sample_def KgeFrequencySampler_sample_def)
    next
      case False
      with assms Frequency have n: "0 \<le> n"
        and s: "alias_support (multinomials self slot) \<noteq> []"
        and m: "m = map (\<lambda>i. map (\<lambda>j. int (alias_draw (multinomials self slot)
                                                (g (i * nat n + j)))) [0..<nat n]) [0..<b]"
        and g': "g' = (\<lambda>k. g (k + b * nat n))"
        by (auto simp: sampler_sample_def KgeFrequencySampler_sample_def split: if_splits)
      from s Frequency have K: "sample_range self slot = length (multinomials self slot)"
        by (simp add: sample_range_def)
      from n m g' alias_draw_support(2) [OF s] show ?thesis
        unfolding K by auto
    qed
  qed
  then show "0 \<le> n" and "length m = b" and "\<forall>row\<in>set m. length row = nat n"
    and "\<forall>row\<in>set m. \<forall>v\<in>set row. 0 \<le> v \<and> v < int (sample_range self slot)"
    and "g' = (\<lambda>k. g (k + b * nat n))" by simp_all
qed



lemma sampler_sample_shared_eq:
  "sampler_sample_shared self ts slot n g =
     (case sampler_sample self 1 slot n g of
        Inl e \<Rightarrow> Inl e
      | Inr (m, g') \<Rightarrow> Inr (concat m, g'))"
  by (cases "strategy self")
     (simp_all add: sampler_sample_shared_def sampler_sample_def
        KgeUniformSampler_sample_shared_def KgeFrequencySampler_sample_shared_def)

lemma sampler_sample_shared_Inr:
  assumes "sampler_sample_shared self ts slot n g = Inr (v, g')"
  shows "0 \<le> n" and "length v = nat n"
    and "\<forall>x\<in>set v. 0 \<le> x \<and> x < int (sample_range self slot)"
    and "g' = (\<lambda>k. g (k + nat n))"
proof -
  from assms obtain m where s: "sampler_sample self 1 slot n g = Inr (m, g')" and v: "v = concat m"
    by (auto simp: sampler_sample_shared_eq split: sum.splits)
  note f = sampler_sample_Inr [OF s]
  from f(2) obtain row where m: "m = [row]"
    by (cases m) auto
  from f(1) show "0 \<le> n" .
  from f(3) m v show "length v = nat n" by simp
  from f(4) m v show "\<forall>x\<in>set v. 0 \<le> x \<and> x < int (sample_range self slot)" by simp
  from f(5) show "g' = (\<lambda>k. g (k + nat n))" by simp
qed

lemma negative_samples_drawn_Inr:
  assumes "negative_samples_drawn self ts slot n g = Inr (ns, g')"
  shows "0 \<le> n" and "length ns = length ts" and "\<forall>row\<in>set ns. length row = nat n"
    and "\<forall>row\<in>set ns. \<forall>v\<in>set row. 0 \<le> v \<and> v < int (sample_range self slot)"
    and "\<exists>c. g' = (\<lambda>k. g (k + c))"
proof -
  have "0 \<le> n \<and> length ns = length ts \<and> (\<forall>row\<in>set ns. length row = nat n)
    \<and> (\<forall>row\<in>set ns. \<forall>v\<in>set row. 0 \<le> v \<and> v < int (sample_range self slot))
    \<and> (\<exists>c. g' = (\<lambda>k. g (k + c)))"
  proof (cases "shared self")
    case True
    with assms obtain v where s: "sampler_sample_shared self ts slot n g = Inr (v, g')"
      and ns: "ns = replicate (length ts) v"
      by (auto simp: negative_samples_drawn_def split: sum.splits)
    from sampler_sample_shared_Inr [OF s] ns show ?thesis by auto
  next
    case False
    with assms have s: "sampler_sample self (length ts) slot n g = Inr (ns, g')"
      by (simp add: negative_samples_drawn_def)
    from sampler_sample_Inr [OF s] show ?thesis by blast
  qed
  then show "0 \<le> n" and "length ns = length ts" and "\<forall>row\<in>set ns. length row = nat n"
    and "\<forall>row\<in>set ns. \<forall>v\<in>set row. 0 \<le> v \<and> v < int (sample_range self slot)"
    and "\<exists>c. g' = (\<lambda>k. g (k + c))" by simp_all
qed


subsection \<open>The paths through \<^verbatim>\<open>sample\<close>\<close>

lemma with_sampler_Inr:
  "with_sampler s r = Some (Inr (m, s', g')) \<longleftrightarrow> r = Some (Inr (m, g')) \<and> s' = s"
  by (auto simp: with_sampler_def split: option.splits sum.splits)

lemma sampler_filter_and_resample_fast_Inr:
  "sampler_filter_and_resample_fast self ns slot ts g = Some (Inr (m, g')) \<longleftrightarrow>
     strategy self = Uniform
     \<and> KgeUniformSampler_filter_and_resample_fast self ns slot ts g = Some (Inr (m, g'))"
  by (cases "strategy self")
     (simp_all add: sampler_filter_and_resample_fast_def KgeSampler_filter_and_resample_fast_def)

lemma KgeSampler_sample_Inr:
  assumes "KgeSampler_sample self ts slot arg g = Some (Inr (m, self', g'))"
    and "n = (case arg of None \<Rightarrow> num_samples self slot | Some k \<Rightarrow> k)"
  shows "\<exists>ns g1. negative_samples_drawn self ts slot n g = Inr (ns, g1) \<and>
          (\<not> filter_positives self slot \<and> m = ns \<and> g' = g1 \<and> self' = self
           \<or> filter_positives self slot
              \<and> KgeSampler_filter_and_resample self ns slot ts g1 = Some (Inr (m, g'))
           \<or> filter_positives self slot \<and> strategy self = Uniform
              \<and> KgeUniformSampler_filter_and_resample_fast self ns slot ts g1
                  = Some (Inr (m, g')))"
proof -
  from assms obtain ns g1 where d: "negative_samples_drawn self ts slot n g = Inr (ns, g1)"
    by (auto simp: KgeSampler_sample_def Let_def split: sum.splits)
  show ?thesis
  proof (cases "filter_positives self slot")
    case False
    with assms d show ?thesis by (auto simp: KgeSampler_sample_def Let_def)
  next
    case True
    with assms d obtain impl where impl: "filter_implementation self = Some impl"
      by (auto simp: KgeSampler_sample_def Let_def split: option.splits)
    let ?fast = "sampler_filter_and_resample_fast self ns slot ts g1"
    let ?std = "KgeSampler_filter_and_resample self ns slot ts g1"
    from assms d True impl have
      "?fast = Some (Inr (m, g')) \<or> ?std = Some (Inr (m, g'))"
      by (auto simp: KgeSampler_sample_def Let_def with_sampler_Inr
            split: if_splits option.splits sum.splits error.splits)
    with True d show ?thesis
      by (auto simp: sampler_filter_and_resample_fast_Inr)
  qed
qed

subsection \<open>Rows without a colliding entry\<close>





subsection \<open>Shape and range of the result\<close>

lemma rewritten_length: "rewritten K positives row row' \<Longrightarrow> length row' = length row"
  by (simp add: rewritten_def)

lemma rewritten_values:
  assumes "rewritten K positives row row'" and "\<forall>v\<in>set row. 0 \<le> v \<and> v < K"
  shows "\<forall>v\<in>set row'. 0 \<le> v \<and> v < K"
proof -
  have "0 \<le> row' ! j \<and> row' ! j < K" if j: "j < length row'" for j
  proof -
    from j assms(1) have j': "j < length row" by (simp add: rewritten_def)
    with assms(1) have "row' ! j = row ! j \<or> (0 \<le> row' ! j \<and> row' ! j < K)"
      by (simp add: rewritten_def)
    moreover from j' assms(2) have "0 \<le> row ! j \<and> row ! j < K" by simp
    ultimately show ?thesis by auto
  qed
  then show ?thesis by (simp add: all_set_conv_all_nth)
qed

lemma KgeSampler_sample_rows:
  assumes run: "KgeSampler_sample self ts slot arg g = Some (Inr (m, self', g'))"
    and n: "n = (case arg of None \<Rightarrow> num_samples self slot | Some k \<Rightarrow> k)"
  shows "0 \<le> n" and "length m = length ts"
    and "\<forall>row\<in>set m. length row = nat n
           \<and> (\<forall>v\<in>set row. 0 \<le> v \<and> v < int (sample_range self slot))"
    and "\<exists>c. g' = (\<lambda>k. g (k + c))"
proof -
  let ?K = "int (sample_range self slot)"
  from KgeSampler_sample_Inr [OF run n] obtain ns g1 where
    d: "negative_samples_drawn self ts slot n g = Inr (ns, g1)"
    and c: "\<not> filter_positives self slot \<and> m = ns \<and> g' = g1 \<and> self' = self
           \<or> filter_positives self slot
              \<and> KgeSampler_filter_and_resample self ns slot ts g1 = Some (Inr (m, g'))
           \<or> filter_positives self slot \<and> strategy self = Uniform
              \<and> KgeUniformSampler_filter_and_resample_fast self ns slot ts g1
                  = Some (Inr (m, g'))"
    by blast
  note dr = negative_samples_drawn_Inr [OF d]
  from dr(5) obtain c1 where g1: "g1 = (\<lambda>k. g (k + c1))" by blast
  have rows: "length m = length ts
      \<and> (\<forall>k<length ts. rewritten ?K (positives_of self slot (ts ! k)) (ns ! k) (m ! k))
      \<and> (\<exists>c. g' = (\<lambda>k. g1 (k + c)))"
    using c
  proof (elim disjE)
    assume a: "\<not> filter_positives self slot \<and> m = ns \<and> g' = g1 \<and> self' = self"
    have "g1 = (\<lambda>k. g1 (k + 0))" by simp
    then have "\<exists>c. g1 = (\<lambda>k. g1 (k + c))" by blast
    with a dr(2) show ?thesis by (simp add: rewritten_refl)
  next
    assume a: "filter_positives self slot
              \<and> KgeSampler_filter_and_resample self ns slot ts g1 = Some (Inr (m, g'))"
    then have f: "KgeSampler_filter_and_resample self ns slot ts g1 = Some (Inr (m, g'))"
      by simp
    note r = standard_filter_rows [OF f]
    from r(5) have "\<forall>k<length ts.
        rewritten ?K (positives_of self slot (ts ! k)) (ns ! k) (m ! k)"
      using resampled_rewritten by blast
    with r(1,3) dr(2) show ?thesis by simp
  next
    assume a: "filter_positives self slot \<and> strategy self = Uniform
              \<and> KgeUniformSampler_filter_and_resample_fast self ns slot ts g1
                  = Some (Inr (m, g'))"
    then have f: "KgeUniformSampler_filter_and_resample_fast self ns slot ts g1
                  = Some (Inr (m, g'))" and u: "strategy self = Uniform" by simp_all
    from dr(2) have "length ts \<le> length ns" by simp
    note r = fast_filter_rows [OF f this]
    have "rewritten ?K (positives_of self slot (ts ! k)) (ns ! k) (m ! k)"
      if k: "k < length ts" for k
    proof -
      from r(5) k have w: "rewritten (vocabulary_size self slot)
          (positives_of self slot (ts ! k)) (ns ! k) (m ! k)" by blast
      have "x < ?K" if "0 \<le> x" "x < vocabulary_size self slot" for x
        using that u by (simp add: sample_range_def)
      with w show ?thesis unfolding rewritten_def by blast
    qed
    with r(1,3) dr(2) show ?thesis by simp
  qed
  from dr(1) show "0 \<le> n" .
  from rows show "length m = length ts" by simp
  show "\<forall>row\<in>set m. length row = nat n \<and> (\<forall>v\<in>set row. 0 \<le> v \<and> v < ?K)"
  proof
    fix row assume "row \<in> set m"
    then obtain k where k: "k < length m" "row = m ! k"
      by (auto simp: in_set_conv_nth)
    with rows have kt: "k < length ts" by simp
    with rows have w: "rewritten ?K (positives_of self slot (ts ! k)) (ns ! k) (m ! k)"
      by blast
    from kt dr(2) have "ns ! k \<in> set ns" by simp
    with dr(3,4) have "length (ns ! k) = nat n" "\<forall>v\<in>set (ns ! k). 0 \<le> v \<and> v < ?K"
      by simp_all
    with rewritten_length [OF w] rewritten_values [OF w] k
    show "length row = nat n \<and> (\<forall>v\<in>set row. 0 \<le> v \<and> v < ?K)" by simp
  qed
  from rows obtain c2 where "g' = (\<lambda>k. g1 (k + c2))" by blast
  with g1 have "g' = (\<lambda>k. g (k + (c2 + c1)))" by (simp add: ac_simps)
  then show "\<exists>c. g' = (\<lambda>k. g (k + c))" by blast
qed

section \<open>Shape of the result\<close>






lemma example_run_unfiltered:
  "case KgeSampler_sample example_sampler [(0, 0, 0)] S_slot None example_draws of
     Some (Inr (m, s, g')) \<Rightarrow> m = [[3, 5, 7, 2, 7]]
   | _ \<Rightarrow> False"
  by code_simp


section \<open>Range of the values\<close>

lemma fold_max_less:
  fixes x :: "int list"
  assumes "\<forall>v\<in>set x. v < b" and "a < b"
  shows "fold max x a < b"
  using assms by (induction x arbitrary: a) auto

lemma bincount_length:
  assumes "bincount x minlength = Inr counts"
    and "\<forall>v\<in>set x. v < minlength"
  shows "length counts = nat minlength"
proof -
  from assms(1) have m: "0 \<le> minlength"
    and c: "counts = map (\<lambda>v. count_list x (int v))
                       [0 ..< max (nat minlength) (nat (fold max x (- 1) + 1))]"
    by (auto simp: bincount_def split: if_splits)
  from m have "(- 1 :: int) < minlength" by simp
  from fold_max_less [OF assms(2) this] have "fold max x (- 1) + 1 \<le> minlength" by simp
  then have "nat (fold max x (- 1) + 1) \<le> nat minlength" by simp
  with c show ?thesis by (simp add: max_def)
qed

lemma frequency_table_length:
  assumes "frequency_table config ds self slot = Inr ms"
    and "\<forall>t\<in>set (split ds (cfg_train_split config)).
           triple_at t slot < vocabulary_size self slot"
  shows "length ms = nat (vocabulary_size self slot)"
proof -
  from assms(1) obtain counts
    where b: "bincount (map (\<lambda>t. triple_at t slot) (split ds (cfg_train_split config)))
                (vocabulary_size self slot) = Inr counts"
      and ms: "length ms = length counts"
    by (auto simp: frequency_table_def Let_def split: sum.splits)
  from bincount_length [OF b] assms(2) ms show ?thesis by simp
qed

lemma create_sample_range:
  assumes c: "create config configuration_key ds = Inr (self, requested)"
    and r: "cfg_sampling_type config = ''frequency'' \<longrightarrow> train_split_in_range config ds"
  shows "sample_range self slot \<le> nat (vocabulary_size self slot)"
proof (cases "cfg_sampling_type config = ''uniform''")
  case True
  with c have "KgeSampler_init Uniform config ds = Inr (self, requested)"
    by (simp add: create_def KgeUniformSampler_init_def)
  then have "strategy self = Uniform"
    by (auto simp: KgeSampler_init_def Let_def split: if_splits)
  then show ?thesis by (simp add: sample_range_def)
next
  case False
  with c have f: "cfg_sampling_type config = ''frequency''"
    and i: "KgeFrequencySampler_init config ds = Inr (self, requested)"
    by (auto simp: create_def split: if_splits)
  from r f have rng: "train_split_in_range config ds" by simp
  from i obtain s0 ms mp mo where
    s0: "KgeSampler_init Frequency config ds = Inr (s0, requested)"
    and ms: "frequency_table config ds s0 S_slot = Inr ms"
    and mp: "frequency_table config ds s0 P_slot = Inr mp"
    and mo: "frequency_table config ds s0 O_slot = Inr mo"
    and self: "self = s0 \<lparr> multinomials :=
                 (\<lambda>slot. case slot of S_slot \<Rightarrow> ms | P_slot \<Rightarrow> mp | O_slot \<Rightarrow> mo) \<rparr>"
    by (auto simp: KgeFrequencySampler_init_def split: sum.splits prod.splits)
  from s0 have st: "strategy s0 = Frequency"
    and voc: "vocabulary_size s0 =
                (\<lambda>slot. if slot = P_slot then num_relations ds else num_entities ds)"
    by (auto simp: KgeSampler_init_def Let_def split: if_splits)
  have inr: "\<forall>t\<in>set (split ds (cfg_train_split config)).
               triple_at t sl < vocabulary_size s0 sl" for sl
    using rng unfolding train_split_in_range_def voc
    by (cases sl) (auto simp: SLOTS_def)
  note l = frequency_table_length [OF ms inr] frequency_table_length [OF mp inr]
           frequency_table_length [OF mo inr]
  show ?thesis using l st self
    by (cases slot) (simp_all add: sample_range_def)
qed

text \<open>
  Claim C3. Take a sampler that the factory returns, in the state of any later call
  (its recorded filter implementation may have changed), over a dataset whose training
  triples hold indexes below the vocabulary sizes when the frequency strategy counts
  them. Every value of a matrix that \<^verbatim>\<open>sample\<close> returns lies in
  \<open>[0, vocabulary_size[slot])\<close>: raw uniform and frequency draws, the shared vector, the
  entries kept by a filter and the entries either filter writes.
\<close>

theorem sampled_values_in_range:
  assumes "create config configuration_key ds = Inr (self0, requested)"
    and "cfg_sampling_type config = ''frequency'' \<longrightarrow> train_split_in_range config ds"
    and "self = self0 \<lparr> filter_implementation := impl \<rparr>"
    and "KgeSampler_sample self positive_triples slot num_samples_arg g
           = Some (Inr (m, self', g'))"
  shows "\<forall>row\<in>set m. \<forall>v\<in>set row. 0 \<le> v \<and> v < vocabulary_size self slot"
proof -
  from assms(3) have "sample_range self slot = sample_range self0 slot"
    and "vocabulary_size self slot = vocabulary_size self0 slot"
    by (simp_all add: sample_range_def split: strategy.split)
  with create_sample_range [OF assms(1,2), of slot]
  have sr: "sample_range self slot \<le> nat (vocabulary_size self slot)" by simp
  from KgeSampler_sample_rows(3) [OF assms(4) refl]
  have h: "\<forall>row\<in>set m. \<forall>v\<in>set row. 0 \<le> v \<and> v < int (sample_range self slot)" by blast
  show ?thesis
  proof (intro ballI)
    fix row v assume "row \<in> set m" "v \<in> set row"
    with h have "0 \<le> v" "v < int (sample_range self slot)" by auto
    with sr show "0 \<le> v \<and> v < vocabulary_size self slot" by (simp split: if_splits)
  qed
qed

lemma example_frequency_run:
  "case create example_frequency_config ''negative_sampling'' example_dataset of
     Inr (self0, requested) \<Rightarrow>
       (case KgeSampler_sample self0 [(0, 0, 0)] O_slot (Some 4) example_draws of
          Some (Inr (m, s, g')) \<Rightarrow> m = [[8, 5, 9, 2]]
        | _ \<Rightarrow> False)
   | _ \<Rightarrow> False"
  by code_simp

lemma example_train_split_in_range:
  "train_split_in_range example_frequency_config example_dataset"
  by (simp add: train_split_in_range_def example_frequency_config_def example_config_def
        example_dataset_def SLOTS_def)

theorem sampled_values_in_range_witness:
  "\<exists>self0 requested self' g'.
     create example_frequency_config ''negative_sampling'' example_dataset
       = Inr (self0, requested)
     \<and> KgeSampler_sample self0 [(0, 0, 0)] O_slot (Some 4) example_draws
         = Some (Inr ([[8, 5, 9, 2]], self', g'))
     \<and> 0 \<le> (8 :: int) \<and> 8 < vocabulary_size self0 O_slot"
proof -
  from example_frequency_run obtain self0 requested where
    c: "create example_frequency_config ''negative_sampling'' example_dataset
          = Inr (self0, requested)"
    and r: "case KgeSampler_sample self0 [(0, 0, 0)] O_slot (Some 4) example_draws of
              Some (Inr (m, s, g')) \<Rightarrow> m = [[8, 5, 9, 2]] | _ \<Rightarrow> False"
    by (cases "create example_frequency_config ''negative_sampling'' example_dataset") auto
  from r obtain self' g' where
    run: "KgeSampler_sample self0 [(0, 0, 0)] O_slot (Some 4) example_draws
            = Some (Inr ([[8, 5, 9, 2]], self', g'))"
    by (cases "KgeSampler_sample self0 [(0, 0, 0)] O_slot (Some 4) example_draws")
       (auto split: sum.splits)
  have self: "self0 = self0 \<lparr> filter_implementation := filter_implementation self0 \<rparr>"
    by simp
  from sampled_values_in_range [OF c _ self, of "[(0, 0, 0)]" O_slot "Some 4" example_draws
         "[[8, 5, 9, 2]]" self' g'] example_train_split_in_range run
  have "0 \<le> (8 :: int) \<and> 8 < vocabulary_size self0 O_slot" by simp
  with c run show ?thesis by blast
qed

section \<open>Known positives in the result\<close>

lemma standard_filter_no_collision:
  assumes "KgeSampler_filter_and_resample self ns slot ts g = Some (Inr (m, g'))"
    and "k < length ts"
  shows "set (m ! k) \<inter> set (positives_of self slot (ts ! k)) = {}"
  using standard_filter_rows(5) [OF assms(1)] assms(2) resampled_no_collision by blast

lemma standard_sample_no_collision:
  assumes run: "KgeSampler_sample self ts slot arg g = Some (Inr (m, self', g'))"
    and f: "filter_positives self slot"
    and impl: "filter_implementation self = Some ''standard''
               \<or> strategy self = Frequency"
    and k: "k < length ts"
  shows "set (m ! k) \<inter> set (positives_of self slot (ts ! k)) = {}"
proof -
  from KgeSampler_sample_Inr [OF run refl] f obtain ns g1 where
    "KgeSampler_filter_and_resample self ns slot ts g1 = Some (Inr (m, g'))
     \<or> strategy self = Uniform
        \<and> KgeUniformSampler_filter_and_resample_fast self ns slot ts g1 = Some (Inr (m, g'))"
    and d: "negative_samples_drawn self ts slot
              (case arg of None \<Rightarrow> num_samples self slot | Some k \<Rightarrow> k) g = Inr (ns, g1)"
    by blast
  moreover have "KgeSampler_filter_and_resample self ns slot ts g1 = Some (Inr (m, g'))"
    if "filter_implementation self = Some ''standard''"
    using run f that d
    by (simp add: KgeSampler_sample_def with_sampler_Inr)
  ultimately have "KgeSampler_filter_and_resample self ns slot ts g1 = Some (Inr (m, g'))"
    using impl by auto
  from standard_filter_no_collision [OF this k] show ?thesis .
qed

text \<open>
  Claim C1. After \<^verbatim>\<open>sample\<close> on a filtered slot no entry of row \<open>i\<close> should be a known
  positive of triple \<open>i\<close>. The standard filter achieves that (the two lemmas above). The
  fast filter does not. With ten entities, the known positives 3 and 7 for the pair
  \<open>(0, 0)\<close>, the batch of the one triple \<open>(0, 0, 3)\<close>, the raw row \<open>[3, 5, 7, 2]\<close> and
  the replacement candidates 7 and 8, then 9: the fast filter returns the row
  \<open>[7, 5, 9, 2]\<close>, which holds the known positive 7, where the standard filter returns
  \<open>[8, 5, 9, 2]\<close>. Its inner loop writes
  \<^verbatim>\<open>new_samples[ctr]\<close>, the first candidates drawn, and not the accepted ones,
  \<^verbatim>\<open>new_samples[idx[ctr]]\<close>.
\<close>

theorem fast_filter_writes_known_positive:
  "(case create (example_config \<lparr> cfg_filtering_implementation := ''fast'' \<rparr>)
           ''negative_sampling'' example_dataset of
      Inr (self, requested) \<Rightarrow>
        (case KgeSampler_sample self [(0, 0, 3)] O_slot (Some 4) example_draws of
           Some (Inr (m, s, g')) \<Rightarrow>
             m = [[7, 5, 9, 2]] \<and> positives_of self O_slot (0, 0, 3) = [3, 7]
             \<and> set (m ! 0) \<inter> set (positives_of self O_slot (0, 0, 3)) = {7}
         | _ \<Rightarrow> False)
    | _ \<Rightarrow> False)
   \<and> (case create (example_config \<lparr> cfg_filtering_implementation := ''standard'' \<rparr>)
           ''negative_sampling'' example_dataset of
      Inr (self, requested) \<Rightarrow>
        (case KgeSampler_sample self [(0, 0, 3)] O_slot (Some 4) example_draws of
           Some (Inr (m, s, g')) \<Rightarrow>
             m = [[8, 5, 9, 2]]
             \<and> set (m ! 0) \<inter> set (positives_of self O_slot (0, 0, 3)) = {}
         | _ \<Rightarrow> False)
    | _ \<Rightarrow> False)"
  by code_simp

section \<open>What the standard filter changes\<close>

lemma fast_filter_frame:
  assumes "KgeUniformSampler_filter_and_resample_fast self ns slot ts g = Some (Inr (m, g'))"
    and "length ts \<le> length ns" and "k < length ts"
  shows "length (m ! k) = length (ns ! k)"
    and "\<forall>j<length (ns ! k).
           ns ! k ! j \<notin> set (positives_of self slot (ts ! k)) \<longrightarrow> m ! k ! j = ns ! k ! j"
  using fast_filter_rows(5) [OF assms(1,2)] assms(3)
  by (auto simp: rewritten_def)

text \<open>
  Claim C4. Let the standard filter return \<open>m\<close> for the raw matrix \<open>negative_samples\<close>,
  and let \<open>resample_idx\<close> be the colliding positions of row \<open>k\<close>, in increasing order.
  Row \<open>k\<close> keeps its length, every entry that is not a known positive of triple \<open>k\<close> stays
  where it was, and the colliding positions, in increasing order, hold the accepted ones
  among consecutive candidates that the strategy draws from the generator, in the order
  they were drawn: the \<open>c\<close>-th colliding position holds the \<open>c\<close>-th accepted candidate.
  Rows past the batch are untouched.
\<close>

theorem filter_replaces_only_collisions:
  assumes "KgeSampler_filter_and_resample self negative_samples slot positive_triples g
             = Some (Inr (m, g'))"
    and "k < length positive_triples"
    and "positives = positives_of self slot (positive_triples ! k)"
    and "resample_idx = where_in (negative_samples ! k) positives False"
  shows "length (m ! k) = length (negative_samples ! k)
       \<and> (\<forall>j<length (negative_samples ! k).
            negative_samples ! k ! j \<notin> set positives \<longrightarrow> m ! k ! j = negative_samples ! k ! j)
       \<and> resample_idx = filter (\<lambda>j. negative_samples ! k ! j \<in> set positives)
                           [0..<length (negative_samples ! k)]
       \<and> (\<exists>off cnt.
            length (accepted positives (fresh (sample_range self slot) (draws_of self slot g) off cnt))
              = length resample_idx
            \<and> (\<forall>c<length resample_idx.
                  m ! k ! (resample_idx ! c)
                    = accepted positives (fresh (sample_range self slot) (draws_of self slot g) off cnt) ! c))
       \<and> length m = length negative_samples
       \<and> (\<forall>r. length positive_triples \<le> r \<longrightarrow> m ! r = negative_samples ! r)"
proof -
  note r = standard_filter_rows [OF assms(1)]
  from r(5) assms(2,3)
  have rs: "resampled (sample_range self slot) positives (draws_of self slot g)
              (negative_samples ! k) (m ! k)"
    by simp
  have "length (m ! k) = length (negative_samples ! k)"
    using resampled_length [OF rs] .
  moreover have "\<forall>j<length (negative_samples ! k).
            negative_samples ! k ! j \<notin> set positives \<longrightarrow> m ! k ! j = negative_samples ! k ! j"
    using resampled_frame [OF rs] by blast
  moreover have "resample_idx = filter (\<lambda>j. negative_samples ! k ! j \<in> set positives)
                           [0..<length (negative_samples ! k)]"
    using assms(4) by (simp add: where_in_def)
  moreover have "\<exists>off cnt.
            length (accepted positives (fresh (sample_range self slot) (draws_of self slot g) off cnt))
              = length resample_idx
            \<and> (\<forall>c<length resample_idx.
                  m ! k ! (resample_idx ! c)
                    = accepted positives (fresh (sample_range self slot) (draws_of self slot g) off cnt) ! c)"
    using resampled_in_order [OF rs] assms(4) by simp
  ultimately show ?thesis using r(1,4) by simp
qed

lemma example_filter_run:
  "case KgeSampler_filter_and_resample example_sampler [[3, 5, 7, 2]] O_slot [(0, 0, 0)]
          (\<lambda>k. example_draws (k + 4)) of
     Some (Inr (m, g')) \<Rightarrow> m = [[8, 5, 9, 2]]
   | _ \<Rightarrow> False"
  by code_simp

theorem filter_replaces_only_collisions_witness:
  "\<exists>g'. KgeSampler_filter_and_resample example_sampler [[3, 5, 7, 2]] O_slot [(0, 0, 0)]
           (\<lambda>k. example_draws (k + 4)) = Some (Inr ([[8, 5, 9, 2]], g'))
        \<and> where_in [3, 5, 7, 2] [3, 7] False = [0, 2]
        \<and> [[8, 5, 9, 2 :: int]] ! 0 ! 1 = [[3, 5, 7, 2]] ! 0 ! 1
        \<and> [[8, 5, 9, 2 :: int]] ! 0 ! 3 = [[3, 5, 7, 2]] ! 0 ! 3
        \<and> accepted [3, 7] (fresh 10 (\<lambda>k. example_draws (k + 4)) 0 3) = [8, 9]"
proof -
  from example_filter_run obtain g' where
    run: "KgeSampler_filter_and_resample example_sampler [[3, 5, 7, 2]] O_slot [(0, 0, 0)]
            (\<lambda>k. example_draws (k + 4)) = Some (Inr ([[8, 5, 9, 2]], g'))"
    by (cases "KgeSampler_filter_and_resample example_sampler [[3, 5, 7, 2]] O_slot [(0, 0, 0)]
                 (\<lambda>k. example_draws (k + 4))")
       (auto split: sum.splits)
  have p: "positives_of example_sampler O_slot ([(0, 0, 0)] ! 0) = [3, 7]"
    by (simp add: positives_of_def example_sampler_def example_dataset_def pair_of_def)
  have w: "where_in [3, 5, 7, 2] [3, 7] False = [0, 2]"
    by code_simp
  have a: "accepted [3, 7] (fresh 10 (\<lambda>k. example_draws (k + 4)) 0 3) = [8, 9]"
    by code_simp
  from filter_replaces_only_collisions [OF run, of 0 "[3, 7]" "[0, 2]"] p w
  have "[[8, 5, 9, 2 :: int]] ! 0 ! 1 = [[3, 5, 7, 2]] ! 0 ! 1
        \<and> [[8, 5, 9, 2 :: int]] ! 0 ! 3 = [[3, 5, 7, 2]] ! 0 ! 3"
    by simp
  with run w a show ?thesis by blast
qed

section \<open>Termination of the filters\<close>












lemma fewer_positives_fair:
  assumes "card (set positives) < K"
  shows "fair_draws K positives counting_draws"
proof -
  from fewer_positives_than_values [OF assms] obtain v where "v < K" "int v \<notin> set positives"
    by blast
  from fair_draws_identity [OF this] show ?thesis by (simp add: counting_draws_def)
qed

lemma covering_positives_not_fair:
  assumes "0 < K" and "\<forall>v<K. int v \<in> set positives"
  shows "\<not> fair_draws K positives g"
  using assms by (simp add: fair_draws_def)

subsection \<open>What the strategies can draw\<close>





lemma fair_draws_not_stuck:
  "fair_draws K positives g \<Longrightarrow> \<not> stuck_draws K positives g"
  by (auto simp: fair_draws_def stuck_draws_def)


subsection \<open>Termination of filter and resample\<close>








section \<open>The resolved filter implementation\<close>

lemma fallback_call:
  assumes "strategy self = Frequency" and "filter_positives self slot"
    and "filter_implementation self = Some ''fast_if_available''"
  shows "KgeSampler_sample self ts slot arg g =
           (case negative_samples_drawn self ts slot
                   (case arg of None \<Rightarrow> num_samples self slot | Some k \<Rightarrow> k) g of
              Inl e \<Rightarrow> Some (Inl e)
            | Inr (ns, g1) \<Rightarrow>
                with_sampler (self \<lparr> filter_implementation := Some ''standard'' \<rparr>)
                  (KgeSampler_filter_and_resample self ns slot ts g1))"
  using assms
  by (simp add: KgeSampler_sample_def sampler_filter_and_resample_fast_def
        KgeSampler_filter_and_resample_fast_def split: sum.splits)

lemma standard_call:
  assumes "filter_implementation self = Some ''standard''"
  shows "KgeSampler_sample self ts slot arg g =
           (case negative_samples_drawn self ts slot
                   (case arg of None \<Rightarrow> num_samples self slot | Some k \<Rightarrow> k) g of
              Inl e \<Rightarrow> Some (Inl e)
            | Inr (ns, g1) \<Rightarrow>
                if filter_positives self slot then
                  with_sampler self (KgeSampler_filter_and_resample self ns slot ts g1)
                else Some (Inr (ns, self, g1)))"
  using assms
  by (simp add: KgeSampler_sample_def split: sum.splits)

lemma standard_call_state:
  assumes "filter_implementation self = Some ''standard''"
    and "KgeSampler_sample self ts slot arg g = Some (Inr (m, self', g'))"
  shows "self' = self"
  using assms(2) unfolding standard_call [OF assms(1)]
  by (auto simp: with_sampler_Inr split: sum.splits if_splits)

lemma unfiltered_call_state:
  assumes "\<not> filter_positives self slot"
    and "KgeSampler_sample self ts slot arg g = Some (Inr (m, self', g'))"
  shows "self' = self"
  using assms by (auto simp: KgeSampler_sample_def Let_def split: sum.splits)

lemma sampler_after_append:
  "sampler_after self (calls @ later) =
     (case sampler_after self calls of None \<Rightarrow> None | Some s \<Rightarrow> sampler_after s later)"
proof (induction calls arbitrary: self)
  case Nil
  show ?case by simp
next
  case (Cons c calls)
  obtain ts slot arg g where c: "c = (ts, slot, arg, g)" by (cases c) auto
  show ?case
  proof (cases "KgeSampler_sample self ts slot arg g")
    case None
    with c show ?thesis by simp
  next
    case (Some r)
    show ?thesis
    proof (cases r)
      case (Inl e)
      with Some c Cons.IH [of self] show ?thesis by simp
    next
      case (Inr y)
      obtain m self' g' where "y = (m, self', g')" by (cases y) auto
      with Inr Some c Cons.IH [of self'] show ?thesis by simp
    qed
  qed
qed

lemma sampler_after_standard:
  assumes "filter_implementation self = Some ''standard''"
  shows "sampler_after self calls = Some s \<Longrightarrow> s = self"
proof (induction calls)
  case Nil
  then show ?case by simp
next
  case (Cons c calls)
  obtain ts slot arg g where c: "c = (ts, slot, arg, g)" by (cases c) auto
  show ?case
  proof (cases "KgeSampler_sample self ts slot arg g")
    case None
    with c Cons.prems show ?thesis by simp
  next
    case (Some r)
    show ?thesis
    proof (cases r)
      case (Inl e)
      with Some c Cons show ?thesis by simp
    next
      case (Inr y)
      obtain m self' g' where y: "y = (m, self', g')" by (cases y) auto
      with Inr Some have "KgeSampler_sample self ts slot arg g = Some (Inr (m, self', g'))"
        by simp
      from standard_call_state [OF assms this] have "self' = self" .
      with y Inr Some c Cons show ?thesis by simp
    qed
  qed
qed

lemma sampler_after_fallback:
  assumes "strategy self = Frequency"
    and "filter_implementation self = Some ''fast_if_available''"
  shows "sampler_after self calls = Some s \<Longrightarrow>
         s = self \<or> s = self \<lparr> filter_implementation := Some ''standard'' \<rparr>"
proof (induction calls)
  case Nil
  then show ?case by simp
next
  case (Cons c calls)
  obtain ts slot arg g where c: "c = (ts, slot, arg, g)" by (cases c) auto
  show ?case
  proof (cases "KgeSampler_sample self ts slot arg g")
    case None
    with c Cons.prems show ?thesis by simp
  next
    case (Some r)
    show ?thesis
    proof (cases r)
      case (Inl e)
      with Some c Cons show ?thesis by simp
    next
      case (Inr y)
      obtain m self' g' where y: "y = (m, self', g')" by (cases y) auto
      with Inr Some have run: "KgeSampler_sample self ts slot arg g = Some (Inr (m, self', g'))"
        by simp
      from run y Inr Some c Cons.prems have rest: "sampler_after self' calls = Some s" by simp
      show ?thesis
      proof (cases "filter_positives self slot")
        case False
        from unfiltered_call_state [OF False run] rest Cons.IH show ?thesis by simp
      next
        case True
        from run have "self' = self \<lparr> filter_implementation := Some ''standard'' \<rparr>"
          unfolding fallback_call [OF assms(1) True assms(2)]
          by (auto simp: with_sampler_Inr split: sum.splits)
        moreover from this have "filter_implementation self' = Some ''standard''" by simp
        from sampler_after_standard [OF this rest] have "s = self'" .
        ultimately show ?thesis by simp
      qed
    qed
  qed
qed

text \<open>
  Claim C8. Take a frequency sampler, which has no fast filter, with the implementation
  \<^verbatim>\<open>fast_if_available\<close>, and let \<open>resolved\<close> be the same object with \<^verbatim>\<open>standard\<close> recorded.
  A call on a filtered slot that returns, returns what the standard filter makes of the
  raw draws and leaves the object \<open>resolved\<close>. Every call on \<open>resolved\<close> is the raw draw
  followed by the standard filter alone, and leaves the object as it is. After any
  sequence of calls the object is the initial one or \<open>resolved\<close>, and once it has
  changed no later call changes it again.
\<close>

theorem fast_if_available_falls_back_once:
  assumes "strategy self = Frequency"
    and "filter_implementation self = Some ''fast_if_available''"
    and "resolved = self \<lparr> filter_implementation := Some ''standard'' \<rparr>"
  shows "(filter_positives self slot
          \<and> KgeSampler_sample self ts slot arg g = Some (Inr (m, self', g')) \<longrightarrow>
            self' = resolved
            \<and> (\<exists>ns g1.
                 negative_samples_drawn self ts slot
                   (case arg of None \<Rightarrow> num_samples self slot | Some k \<Rightarrow> k) g = Inr (ns, g1)
                 \<and> KgeSampler_filter_and_resample self ns slot ts g1 = Some (Inr (m, g'))))
       \<and> KgeSampler_sample resolved ts2 slot2 arg2 g2 =
           (case negative_samples_drawn resolved ts2 slot2
                   (case arg2 of None \<Rightarrow> num_samples resolved slot2 | Some k \<Rightarrow> k) g2 of
              Inl e \<Rightarrow> Some (Inl e)
            | Inr (ns, g1) \<Rightarrow>
                if filter_positives resolved slot2 then
                  with_sampler resolved
                    (KgeSampler_filter_and_resample resolved ns slot2 ts2 g1)
                else Some (Inr (ns, resolved, g1)))
       \<and> (sampler_after resolved calls = Some s \<longrightarrow> s = resolved)
       \<and> (sampler_after self calls = Some s \<longrightarrow> s = self \<or> s = resolved)
       \<and> (sampler_after self calls = Some s \<and> s \<noteq> self
          \<and> sampler_after self (calls @ later) = Some s2 \<longrightarrow> s2 = s)"
proof (intro conjI impI)
  assume a: "filter_positives self slot
          \<and> KgeSampler_sample self ts slot arg g = Some (Inr (m, self', g'))"
  then have f: "filter_positives self slot"
    and run: "KgeSampler_sample self ts slot arg g = Some (Inr (m, self', g'))" by simp_all
  from run show "self' = resolved"
    unfolding fallback_call [OF assms(1) f assms(2)] assms(3)
    by (auto simp: with_sampler_Inr split: sum.splits)
  from run show "\<exists>ns g1.
                 negative_samples_drawn self ts slot
                   (case arg of None \<Rightarrow> num_samples self slot | Some k \<Rightarrow> k) g = Inr (ns, g1)
                 \<and> KgeSampler_filter_and_resample self ns slot ts g1 = Some (Inr (m, g'))"
    unfolding fallback_call [OF assms(1) f assms(2)]
    by (auto simp: with_sampler_Inr split: sum.splits)
next
  have r: "filter_implementation resolved = Some ''standard''"
    by (simp add: assms(3))
  from standard_call [OF r]
  show "KgeSampler_sample resolved ts2 slot2 arg2 g2 =
           (case negative_samples_drawn resolved ts2 slot2
                   (case arg2 of None \<Rightarrow> num_samples resolved slot2 | Some k \<Rightarrow> k) g2 of
              Inl e \<Rightarrow> Some (Inl e)
            | Inr (ns, g1) \<Rightarrow>
                if filter_positives resolved slot2 then
                  with_sampler resolved
                    (KgeSampler_filter_and_resample resolved ns slot2 ts2 g1)
                else Some (Inr (ns, resolved, g1)))" .
  {
    assume "sampler_after resolved calls = Some s"
    from sampler_after_standard [OF r this] show "s = resolved" .
  }
  {
    assume "sampler_after self calls = Some s"
    from sampler_after_fallback [OF assms(1,2) this] show "s = self \<or> s = resolved"
      by (simp add: assms(3))
  }
  {
    assume a: "sampler_after self calls = Some s \<and> s \<noteq> self
          \<and> sampler_after self (calls @ later) = Some s2"
    with sampler_after_fallback [OF assms(1,2), of calls s] have s: "s = resolved"
      by (simp add: assms(3))
    from a have "sampler_after s later = Some s2"
      by (clarsimp simp: sampler_after_append)
    with s sampler_after_standard [OF r] show "s2 = s" by blast
  }
qed

lemma example_fallback_run:
  "case KgeSampler_sample example_frequency_sampler [(0, 0, 0)] O_slot (Some 4) example_draws of
     Some (Inr (m, s, g')) \<Rightarrow>
       m = [[8, 5, 9, 2]]
       \<and> (case KgeSampler_sample
                  (example_frequency_sampler \<lparr> filter_implementation := Some ''standard'' \<rparr>)
                  [(0, 0, 0)] O_slot (Some 4) g' of
             Some (Inr (m2, s2, g2)) \<Rightarrow> m2 = [[0, 0, 0, 0]]
           | _ \<Rightarrow> False)
   | _ \<Rightarrow> False"
  by code_simp


theorem fast_if_available_falls_back_once_witness:
  "\<exists>g'. KgeSampler_sample example_frequency_sampler [(0, 0, 0)] O_slot (Some 4) example_draws
           = Some (Inr ([[8, 5, 9, 2]],
                        example_frequency_sampler \<lparr> filter_implementation := Some ''standard'' \<rparr>,
                        g'))
        \<and> sampler_after example_frequency_sampler
            [([(0, 0, 0)], O_slot, Some 4, example_draws), ([(0, 0, 0)], O_slot, Some 4, g')]
           = Some (example_frequency_sampler \<lparr> filter_implementation := Some ''standard'' \<rparr>)"
proof -
  let ?resolved = "example_frequency_sampler \<lparr> filter_implementation := Some ''standard'' \<rparr>"
  from example_fallback_run obtain s g' where
    run1: "KgeSampler_sample example_frequency_sampler [(0, 0, 0)] O_slot (Some 4) example_draws
             = Some (Inr ([[8, 5, 9, 2]], s, g'))"
    and r2: "case KgeSampler_sample ?resolved [(0, 0, 0)] O_slot (Some 4) g' of
               Some (Inr (m2, s2, g2)) \<Rightarrow> m2 = [[0, 0, 0, 0]] | _ \<Rightarrow> False"
    by (cases "KgeSampler_sample example_frequency_sampler [(0, 0, 0)] O_slot (Some 4)
                 example_draws")
       (auto split: sum.splits)
  from r2 obtain s2 g2 where
    run2: "KgeSampler_sample ?resolved [(0, 0, 0)] O_slot (Some 4) g'
             = Some (Inr ([[0, 0, 0, 0]], s2, g2))"
    by (cases "KgeSampler_sample ?resolved [(0, 0, 0)] O_slot (Some 4) g'")
       (auto split: sum.splits)
  have h: "strategy example_frequency_sampler = Frequency"
    "filter_implementation example_frequency_sampler = Some ''fast_if_available''"
    "filter_positives example_frequency_sampler O_slot"
    by (simp_all add: example_frequency_sampler_def example_sampler_def)
  note t = fast_if_available_falls_back_once [OF h(1,2) refl]
  from t [of O_slot "[(0, 0, 0)]" "Some 4" example_draws "[[8, 5, 9, 2]]" s g'] h(3) run1
  have s: "s = ?resolved" by simp
  from t [where calls = "[([(0, 0, 0)], O_slot, Some 4, g')]" and s = s2] run2
  have "sampler_after ?resolved [([(0, 0, 0)], O_slot, Some 4, g')] = Some ?resolved"
    by simp
  with run1 s have "sampler_after example_frequency_sampler
            [([(0, 0, 0)], O_slot, Some 4, example_draws), ([(0, 0, 0)], O_slot, Some 4, g')]
           = Some ?resolved"
    by simp
  with run1 s show ?thesis by blast
qed

section \<open>Shared sampling\<close>

lemma create_fields:
  assumes "create config configuration_key ds = Inr (self, requested)"
  shows "shared self = cfg_shared config" and "filter_positives self = cfg_filtering config"
    and "\<not> (list_ex (cfg_filtering config) SLOTS \<and> cfg_shared config)"
proof -
  from assms obtain cls s0 where
    i: "KgeSampler_init cls config ds = Inr (s0, requested)"
    and s: "shared self = shared s0" "filter_positives self = filter_positives s0"
    by (auto simp: create_def KgeUniformSampler_init_def KgeFrequencySampler_init_def
          split: if_splits sum.splits prod.splits)
  note f = KgeSampler_init_Inr [OF i]
  from f(1) s show "shared self = cfg_shared config"
    and "filter_positives self = cfg_filtering config" by simp_all
  from f(3) show "\<not> (list_ex (cfg_filtering config) SLOTS \<and> cfg_shared config)" .
qed

lemma create_shared_unfiltered:
  assumes "create config configuration_key ds = Inr (self, requested)" and "shared self"
  shows "\<not> filter_positives self slot"
  using create_fields [OF assms(1)] assms(2) by (auto simp: list_ex_SLOTS)

text \<open>
  Claim C9. Take a sampler that the factory returns with shared sampling on. A matrix
  that \<^verbatim>\<open>sample\<close> returns consists of one row per triple, each the vector \<open>v\<close> that
  \<^verbatim>\<open>_sample_shared\<close> draws; \<open>v\<close> has \<open>n\<close> entries, it is the same whatever batch
  \<^verbatim>\<open>_sample_shared\<close> is given, the generator has advanced by the \<open>n\<close> values of that one
  draw, and the sampler is unchanged.
\<close>

theorem shared_rows_identical:
  assumes "create config configuration_key ds = Inr (self, requested)"
    and "shared self"
    and "n = (case num_samples_arg of None \<Rightarrow> num_samples self slot | Some k \<Rightarrow> k)"
    and "KgeSampler_sample self positive_triples slot num_samples_arg g
           = Some (Inr (m, self', g'))"
  shows "\<exists>v. sampler_sample_shared self other_triples slot n g = Inr (v, g')
            \<and> m = replicate (length positive_triples) v
            \<and> length v = nat n \<and> g' = (\<lambda>k. g (k + nat n)) \<and> self' = self"
proof -
  from create_shared_unfiltered [OF assms(1,2)] have nf: "\<not> filter_positives self slot" .
  from assms(4) nf assms(3) have
    d: "negative_samples_drawn self positive_triples slot n g = Inr (m, g')"
    and s: "self' = self"
    by (auto simp: KgeSampler_sample_def Let_def split: sum.splits)
  from d assms(2) obtain v where
    v: "sampler_sample_shared self positive_triples slot n g = Inr (v, g')"
    and m: "m = replicate (length positive_triples) v"
    by (auto simp: negative_samples_drawn_def split: sum.splits)
  from v have v': "sampler_sample_shared self other_triples slot n g = Inr (v, g')"
    by (simp add: sampler_sample_shared_eq)
  note f = sampler_sample_shared_Inr [OF v]
  from v' m f(2,4) s show ?thesis by blast
qed

lemma example_shared_run:
  "case create example_shared_config ''negative_sampling'' example_dataset of
     Inr (self, requested) \<Rightarrow>
       shared self
       \<and> (case KgeSampler_sample self [(0, 0, 0), (2, 1, 5)] S_slot None example_draws of
             Some (Inr (m, s, g')) \<Rightarrow> m = [[3, 5, 7], [3, 5, 7]]
           | _ \<Rightarrow> False)
   | _ \<Rightarrow> False"
  by code_simp

theorem shared_rows_identical_witness:
  "\<exists>self requested self' g'.
     create example_shared_config ''negative_sampling'' example_dataset = Inr (self, requested)
     \<and> KgeSampler_sample self [(0, 0, 0), (2, 1, 5)] S_slot None example_draws
         = Some (Inr ([[3, 5, 7], [3, 5, 7]], self', g'))
     \<and> sampler_sample_shared self [] S_slot 3 example_draws = Inr ([3, 5, 7], g')
     \<and> self' = self"
proof -
  from example_shared_run obtain self requested where
    c: "create example_shared_config ''negative_sampling'' example_dataset
          = Inr (self, requested)"
    and sh: "shared self"
    and r: "case KgeSampler_sample self [(0, 0, 0), (2, 1, 5)] S_slot None example_draws of
              Some (Inr (m, s, g')) \<Rightarrow> m = [[3, 5, 7], [3, 5, 7]] | _ \<Rightarrow> False"
    by (cases "create example_shared_config ''negative_sampling'' example_dataset") auto
  from r obtain self' g' where
    run: "KgeSampler_sample self [(0, 0, 0), (2, 1, 5)] S_slot None example_draws
            = Some (Inr ([[3, 5, 7], [3, 5, 7]], self', g'))"
    by (cases "KgeSampler_sample self [(0, 0, 0), (2, 1, 5)] S_slot None example_draws")
       (auto split: sum.splits)
  from shared_rows_identical [OF c sh refl run, of "[]"] obtain v where
    v: "sampler_sample_shared self [] S_slot (num_samples self S_slot) example_draws
          = Inr (v, g')"
    and m: "[[3, 5, 7], [3, 5, 7]] = replicate (length [(0, 0, 0), (2, 1, 5) :: triple]) v"
    and l: "length v = nat (num_samples self S_slot)" and s: "self' = self"
    by auto
  from m have v3: "v = [3, 5, 7]" by (simp add: numeral_2_eq_2)
  with l have "nat (num_samples self S_slot) = 3" by simp
  moreover have "0 \<le> num_samples self S_slot"
    using KgeSampler_sample_rows(1) [OF run refl] by simp
  ultimately have "num_samples self S_slot = 3" by simp
  with v v3 c run s show ?thesis by auto
qed

end
